(* ===== verification/FIR_Prelude.thy ===== *)
theory FIR_Prelude
  imports Complex_Main "HOL-Library.While_Combinator"
begin

text \<open>
  Shared vocabulary of the development: the named collections of unfolding rules, the
  error values and the result type every fallible step returns, Python's true division
  with its \<^verbatim>\<open>ZeroDivisionError\<close>, and the facts on lists, sums, fractional powers and
  \<open>pi\<close> that the component theories use. Floating-point numbers of the program are
  modelled as real numbers throughout, so every statement is about the exact values the
  floating-point computation approximates.
\<close>

section \<open>Collections\<close>

named_theorems script_defs "unfoldings of the definitions translated from src/66.py"
named_theorems designer_defs "unfoldings of the designer and evaluator contracts"
named_theorems result_iffs "when a step of the result type succeeds or fails"

section \<open>Errors as values\<close>

text \<open>
  The error taxonomy of the designers and the evaluator, \<open>ZeroDivision\<close> for the
  \<^verbatim>\<open>ZeroDivisionError\<close> the script's own divisions raise, and \<open>ShapeMismatch\<close> for the
  \<^verbatim>\<open>ValueError\<close> of a plotting call whose two sequences differ in length.
\<close>

datatype error =
    ZeroDivision
  | InvalidSpec
  | InvalidLength
  | InvalidTransitionWidth
  | InvalidBandSpec
  | InvalidBreakpoints
  | InvalidGridSize
  | ShapeMismatch

type_synonym 'a result = "error + 'a"

definition rbind :: "'e + 'a \<Rightarrow> ('a \<Rightarrow> 'e + 'b) \<Rightarrow> 'e + 'b" where
  "rbind m f = (case m of Inl e \<Rightarrow> Inl e | Inr v \<Rightarrow> f v)"

definition py_div :: "real \<Rightarrow> real \<Rightarrow> real result" where
  "py_div x y = (if y = 0 then Inl ZeroDivision else Inr (x / y))"

definition is_ok :: "'e + 'a \<Rightarrow> bool" where
  "is_ok m = (case m of Inl _ \<Rightarrow> False | Inr _ \<Rightarrow> True)"

lemma rbind_Inl [simp]: "rbind (Inl e) f = Inl e"
  by (simp add: rbind_def)

lemma rbind_Inr [simp]: "rbind (Inr v) f = f v"
  by (simp add: rbind_def)

lemma rbind_eq_Inr_iff [result_iffs]:
  "rbind m f = Inr y \<longleftrightarrow> (\<exists>v. m = Inr v \<and> f v = Inr y)"
  by (cases m) simp_all

lemma rbind_eq_Inl_iff [result_iffs]:
  "rbind m f = Inl e \<longleftrightarrow> m = Inl e \<or> (\<exists>v. m = Inr v \<and> f v = Inl e)"
  by (cases m) auto

lemma rbind_assoc: "rbind (rbind m f) g = rbind m (\<lambda>v. rbind (f v) g)"
  by (cases m) simp_all

lemma rbind_return [simp]: "rbind m Inr = m"
  by (cases m) simp_all

lemma is_ok_simps [simp]: "is_ok (Inr v)" "\<not> is_ok (Inl e)"
  by (simp_all add: is_ok_def)

lemma is_ok_iff [result_iffs]: "is_ok m \<longleftrightarrow> (\<exists>v. m = Inr v)"
  by (cases m) simp_all

lemma py_div_zero [simp]: "py_div x 0 = Inl ZeroDivision"
  by (simp add: py_div_def)

lemma py_div_nonzero [simp]: "y \<noteq> 0 \<Longrightarrow> py_div x y = Inr (x / y)"
  by (simp add: py_div_def)

lemma py_div_eq_Inr_iff [result_iffs]: "py_div x y = Inr q \<longleftrightarrow> y \<noteq> 0 \<and> q = x / y"
  by (auto simp: py_div_def)

lemma py_div_eq_Inl_iff [result_iffs]: "py_div x y = Inl e \<longleftrightarrow> y = 0 \<and> e = ZeroDivision"
  by (auto simp: py_div_def)

section \<open>Lists of taps\<close>

text \<open>
  An impulse response is a list of real taps. \<open>tabulate n f\<close> is the list
  \<open>[f 0, \<dots>, f (n - 1)]\<close> that a loop over the tap index builds; a response is symmetric
  (linear phase) when it reads the same in both directions.
\<close>

definition tabulate :: "nat \<Rightarrow> (nat \<Rightarrow> 'a) \<Rightarrow> 'a list" where
  "tabulate n f = map f [0..<n]"

definition symmetric :: "'a list \<Rightarrow> bool" where
  "symmetric h \<longleftrightarrow> rev h = h"

lemma length_tabulate [simp]: "length (tabulate n f) = n"
  by (simp add: tabulate_def)

lemma nth_tabulate [simp]: "i < n \<Longrightarrow> tabulate n f ! i = f i"
  by (simp add: tabulate_def)

lemma tabulate_0 [simp]: "tabulate 0 f = []"
  by (simp add: tabulate_def)

lemma tabulate_Suc: "tabulate (Suc n) f = tabulate n f @ [f n]"
  by (simp add: tabulate_def)

lemma tabulate_Suc_shift: "tabulate (Suc n) f = f 0 # tabulate n (\<lambda>i. f (Suc i))"
  by (simp add: tabulate_def upt_conv_Cons map_Suc_upt [symmetric] del: upt_Suc)

lemma map_tabulate [simp]: "map g (tabulate n f) = tabulate n (\<lambda>i. g (f i))"
  by (simp add: tabulate_def)

lemma tabulate_cong: "(\<And>i. i < n \<Longrightarrow> f i = g i) \<Longrightarrow> tabulate n f = tabulate n g"
  by (simp add: tabulate_def)

lemma sum_list_tabulate: "sum_list (tabulate n f) = (\<Sum>i<n. f i)"
  by (simp add: tabulate_def interv_sum_list_conv_sum_set_nat atLeast0LessThan)

lemma rev_tabulate: "rev (tabulate n f) = tabulate n (\<lambda>i. f (n - Suc i))"
  by (rule nth_equalityI) (simp_all add: rev_nth tabulate_def)

lemma symmetric_tabulate:
  "(\<And>i. i < n \<Longrightarrow> f (n - Suc i) = f i) \<Longrightarrow> symmetric (tabulate n f)"
  unfolding symmetric_def rev_tabulate by (rule tabulate_cong)

lemma symmetric_nth:
  "symmetric h \<Longrightarrow> i < length h \<Longrightarrow> h ! (length h - Suc i) = h ! i"
  unfolding symmetric_def by (metis rev_nth)

definition centre :: "nat \<Rightarrow> nat" where
  "centre M = (M - 1) div 2"

lemma odd_centre: "odd M \<Longrightarrow> real (centre M) = (real M - 1) / 2"
  by (auto simp: centre_def elim!: oddE)

lemma centre_less: "0 < M \<Longrightarrow> centre M < M"
  by (simp add: centre_def less_eq_div_iff_mult_less_eq)

lemma centre_mirror: "odd M \<Longrightarrow> M - Suc (centre M) = centre M"
  by (auto simp: centre_def elim!: oddE)

lemma centre_pos: "3 \<le> M \<Longrightarrow> 0 < centre M"
  by (simp add: centre_def)

lemma odd_centre_twice: "odd M \<Longrightarrow> real M - 1 = 2 * real (centre M)"
  using odd_centre [of M] by simp

lemma symmetric_map: "symmetric h \<Longrightarrow> symmetric (map g h)"
  unfolding symmetric_def by (metis rev_map)

lemma sum_list_map_divide:
  fixes f :: "'a \<Rightarrow> real"
  shows "(\<Sum>x\<leftarrow>xs. f x / c) = (\<Sum>x\<leftarrow>xs. f x) / c"
  by (induction xs) (simp_all add: add_divide_distrib)

lemma sum_list_scaled_unit:
  fixes xs :: "real list"
  assumes "sum_list xs \<noteq> 0"
  shows "sum_list (map (\<lambda>x. x / sum_list xs) xs) = 1"
  using assms by (simp add: sum_list_map_divide)

lemma sum_list_abs_le:
  fixes xs :: "real list"
  shows "\<bar>sum_list xs\<bar> \<le> (\<Sum>x\<leftarrow>xs. \<bar>x\<bar>)"
  by (induction xs) auto

section \<open>Mirrored and alternating sums\<close>

text \<open>
  The sum of an odd-length symmetric sequence is its centre plus twice one half, and an
  alternating sum of a decreasing non-negative sequence is non-negative (Leibniz). Both
  are used to bound the sum of the taps of a half-band design away from zero.
\<close>

lemma sum_odd_indices:
  fixes f :: "nat \<Rightarrow> real"
  assumes "\<And>k. even k \<Longrightarrow> f k = 0"
  shows "(\<Sum>k<n. f k) = (\<Sum>j<n div 2. f (Suc (2 * j)))"
proof (induction n)
  case 0
  show ?case by simp
next
  case (Suc n)
  show ?case
  proof (cases "even n")
    case True
    then have "Suc n div 2 = n div 2" by auto
    with True Suc assms show ?thesis by simp
  next
    case False
    then obtain m where m: "n = Suc (2 * m)" by (auto elim: oddE)
    then have "Suc n div 2 = Suc m" "n div 2 = m" by simp_all
    with Suc m show ?thesis by simp
  qed
qed

lemma alternating_sum_bounds:
  fixes a :: "nat \<Rightarrow> real"
  assumes nonneg: "\<And>j. j < n \<Longrightarrow> 0 \<le> a j"
    and decr: "\<And>j. Suc j < n \<Longrightarrow> a (Suc j) \<le> a j"
  shows "m \<le> n \<Longrightarrow> (if even m then 0 \<le> (\<Sum>j<m. (- 1) ^ j * a j)
      else m < n \<longrightarrow> a m \<le> (\<Sum>j<m. (- 1) ^ j * a j))"
proof (induction m)
  case 0
  show ?case by simp
next
  case (Suc m)
  then have IH: "if even m then 0 \<le> (\<Sum>j<m. (- 1) ^ j * a j)
      else m < n \<longrightarrow> a m \<le> (\<Sum>j<m. (- 1) ^ j * a j)"
    and m: "m < n" by simp_all
  show ?case
  proof (cases "even m")
    case True
    with IH m decr [of m] show ?thesis by auto
  next
    case False
    with IH m show ?thesis by auto
  qed
qed

lemma alternating_sum_nonneg:
  fixes a :: "nat \<Rightarrow> real"
  assumes nonneg: "\<And>j. j < n \<Longrightarrow> 0 \<le> a j"
    and decr: "\<And>j. Suc j < n \<Longrightarrow> a (Suc j) \<le> a j"
  shows "0 \<le> (\<Sum>j<n. (- 1) ^ j * a j)"
proof (cases n)
  case 0
  then show ?thesis by simp
next
  case (Suc m)
  have b: "if even m then 0 \<le> (\<Sum>j<m. (- 1) ^ j * a j)
      else m < n \<longrightarrow> a m \<le> (\<Sum>j<m. (- 1) ^ j * a j)"
    by (rule alternating_sum_bounds [where a = a and n = n and m = m])
      (simp_all add: nonneg decr Suc)
  show ?thesis
  proof (cases "even m")
    case True
    with b nonneg [of m] Suc show ?thesis by simp
  next
    case False
    with b Suc show ?thesis by simp
  qed
qed

lemma sum_list_tabulate_mirror:
  fixes f :: "nat \<Rightarrow> real"
  assumes sym: "\<And>n. n < 2 * L + 1 \<Longrightarrow> f (2 * L - n) = f n"
  shows "sum_list (tabulate (2 * L + 1) f) = f L + 2 * (\<Sum>k<L. f (L + Suc k))"
proof -
  have "(\<Sum>i=0..<2 * L + 1. f i) = (\<Sum>i=0..<L. f i) + (\<Sum>i=L..<2 * L + 1. f i)"
    by (rule sum.atLeastLessThan_concat [symmetric]) simp_all
  also have "(\<Sum>i=L..<2 * L + 1. f i) = f L + (\<Sum>i=Suc L..<2 * L + 1. f i)"
    by (rule sum.atLeast_Suc_lessThan) simp
  also have "(\<Sum>i=Suc L..<2 * L + 1. f i) = (\<Sum>k=0..<L. f (k + Suc L))"
    using sum.shift_bounds_nat_ivl [of f 0 "Suc L" L] by (simp only: add_0 mult_2 add_Suc_right One_nat_def add_0_right add_Suc)
  also have "(\<Sum>i=0..<L. f i) = (\<Sum>k=0..<L. f (k + Suc L))"
  proof -
    have "(\<Sum>i<L. f i) = (\<Sum>k<L. f (L - Suc k))"
      by (rule sum.nat_diff_reindex [symmetric])
    also have "\<dots> = (\<Sum>k<L. f (k + Suc L))"
    proof (rule sum.cong [OF refl])
      fix k assume "k \<in> {..<L}"
      then have k: "k < L" by simp
      then have "f (2 * L - (k + Suc L)) = f (k + Suc L)" by (intro sym) simp
      moreover from k have "2 * L - (k + Suc L) = L - Suc k" by simp
      ultimately show "f (L - Suc k) = f (k + Suc L)" by simp
    qed
    finally show ?thesis by (simp only: atLeast0LessThan)
  qed
  finally have "(\<Sum>i<2 * L + 1. f i) = f L + 2 * (\<Sum>k<L. f (k + Suc L))"
    by (simp only: atLeast0LessThan)
  then show ?thesis by (simp add: sum_list_tabulate add.commute)
qed

section \<open>Fractional powers and ceilings\<close>

lemma powr_frac_gt_iff:
  fixes a x :: real
  assumes "0 < a" "0 < x" "0 < n"
  shows "a < x powr (real m / real n) \<longleftrightarrow> a ^ n < x ^ m"
proof -
  have "a < x powr (real m / real n) \<longleftrightarrow>
      a powr real n < (x powr (real m / real n)) powr real n"
    using assms by (auto intro: powr_less_mono2 dest: powr_less_cancel2 [rotated 3])
  also have "(x powr (real m / real n)) powr real n = x powr real m"
    using assms by (simp add: powr_powr)
  finally show ?thesis using assms by (simp add: powr_realpow)
qed

lemma powr_frac_less_iff:
  fixes a x :: real
  assumes "0 < a" "0 < x" "0 < n"
  shows "x powr (real m / real n) < a \<longleftrightarrow> x ^ m < a ^ n"
proof -
  have "x powr (real m / real n) < a \<longleftrightarrow>
      (x powr (real m / real n)) powr real n < a powr real n"
    using assms by (auto intro: powr_less_mono2 dest: powr_less_cancel2 [rotated 3])
  also have "(x powr (real m / real n)) powr real n = x powr real m"
    using assms by (simp add: powr_powr)
  finally show ?thesis using assms by (simp add: powr_realpow)
qed

lemma powr_frac_gtI:
  fixes a x :: real
  shows "0 < a \<Longrightarrow> 0 < x \<Longrightarrow> 0 < n \<Longrightarrow> a ^ n < x ^ m \<Longrightarrow> a < x powr (real m / real n)"
  by (simp add: powr_frac_gt_iff)

lemma powr_frac_lessI:
  fixes a x :: real
  shows "0 < a \<Longrightarrow> 0 < x \<Longrightarrow> 0 < n \<Longrightarrow> x ^ m < a ^ n \<Longrightarrow> x powr (real m / real n) < a"
  by (simp add: powr_frac_less_iff)

lemma ceiling_eqI:
  fixes x :: real
  shows "of_int n - 1 < x \<Longrightarrow> x \<le> of_int n \<Longrightarrow> \<lceil>x\<rceil> = n"
  by (rule ceiling_unique) simp_all

section \<open>Bounds on \<open>pi\<close>\<close>

text \<open>
  Two polynomial bounds on \<open>arctan\<close> and Machin's formula give \<open>pi\<close> to two decimals,
  which is what the length estimate of the Kaiser design needs.
\<close>

lemma arctan_lower_cubic:
  assumes "0 \<le> x"
  shows "x - x ^ 3 / 3 \<le> arctan x"
proof -
  let ?f = "\<lambda>t::real. arctan t - t + t ^ 3 / 3"
  have "?f 0 \<le> ?f x"
  proof (rule DERIV_nonneg_imp_nondecreasing [OF assms])
    fix t :: real
    have d: "(?f has_real_derivative (inverse (1 + t\<^sup>2) - 1 + t\<^sup>2)) (at t)"
      by (auto intro!: derivative_eq_intros)
    have pos: "0 < 1 + t\<^sup>2" by (simp add: add_pos_nonneg)
    have "(1 - t\<^sup>2) * (1 + t\<^sup>2) = 1 - t ^ 4"
      by (simp add: algebra_simps power2_eq_square power_numeral_reduce)
    moreover have "0 \<le> t ^ 4" by simp
    ultimately have "(1 - t\<^sup>2) * (1 + t\<^sup>2) \<le> 1" by linarith
    then have "1 - t\<^sup>2 \<le> inverse (1 + t\<^sup>2)"
      using pos by (simp add: inverse_eq_divide pos_le_divide_eq)
    then show "\<exists>y. (?f has_real_derivative y) (at t) \<and> 0 \<le> y"
      using d by (intro exI conjI) auto
  qed
  then show ?thesis by simp
qed

lemma arctan_upper_quintic:
  assumes "0 \<le> x"
  shows "arctan x \<le> x - x ^ 3 / 3 + x ^ 5 / 5"
proof -
  let ?f = "\<lambda>t::real. t - t ^ 3 / 3 + t ^ 5 / 5 - arctan t"
  have "?f 0 \<le> ?f x"
  proof (rule DERIV_nonneg_imp_nondecreasing [OF assms])
    fix t :: real
    have d: "(?f has_real_derivative (1 - t\<^sup>2 + t ^ 4 - inverse (1 + t\<^sup>2))) (at t)"
      by (auto intro!: derivative_eq_intros)
    have "(1 - t\<^sup>2 + t ^ 4) * (1 + t\<^sup>2) = 1 + t ^ 6"
      by (simp add: algebra_simps power2_eq_square power_numeral_reduce)
    moreover have "0 \<le> t ^ 6" by simp
    ultimately have "1 \<le> (1 - t\<^sup>2 + t ^ 4) * (1 + t\<^sup>2)" by linarith
    moreover have pos: "0 < 1 + t\<^sup>2" by (simp add: add_pos_nonneg)
    ultimately have "inverse (1 + t\<^sup>2) \<le> 1 - t\<^sup>2 + t ^ 4"
      by (simp add: inverse_eq_divide pos_divide_le_eq)
    then show "\<exists>y. (?f has_real_derivative y) (at t) \<and> 0 \<le> y"
      using d by (intro exI conjI) auto
  qed
  then show ?thesis by simp
qed

lemma pi_bounds: "3.14 < pi" "pi < 3.142"
proof -
  have l5: "1 / 5 - (1 / 5) ^ 3 / 3 \<le> arctan (1 / 5)"
    by (rule arctan_lower_cubic) simp
  have u5: "arctan (1 / 5) \<le> 1 / 5 - (1 / 5) ^ 3 / 3 + (1 / 5) ^ 5 / 5"
    by (rule arctan_upper_quintic) simp
  have l239: "1 / 239 - (1 / 239) ^ 3 / 3 \<le> arctan (1 / 239)"
    by (rule arctan_lower_cubic) simp
  have u239: "arctan (1 / 239) \<le> 1 / 239 - (1 / 239) ^ 3 / 3 + (1 / 239) ^ 5 / 5"
    by (rule arctan_upper_quintic) simp
  have m: "pi = 16 * arctan (1 / 5) - 4 * arctan (1 / 239)"
    using machin by simp
  show "3.14 < pi" using l5 u239 unfolding m by (simp add: power_numeral_reduce)
  show "pi < 3.142" using u5 l239 unfolding m by (simp add: power_numeral_reduce)
qed

end
