(* ===== verification/Spec_Normalizer.thy ===== *)
theory Spec_Normalizer
  imports FIR_Prelude
begin

text \<open>
  The parameter block of \<^verbatim>\<open>src/66.py\<close> (lines 7 to 20) and the SpecNormalizer contract.
  The script's five literals become the record \<open>config\<close>, so that every later
  definition is a function of the specification it is run on; \<open>task\<close> is the block as
  written. \<open>wp\<close>, \<open>ws\<close>, \<open>A_pass\<close> and \<open>A_stop\<close> are the script's assignments. The
  contract \<open>normalize\<close> adds the validation that the script does not perform; the lemmas
  relate the two.
\<close>

section \<open>The script's parameters and normalisation\<close>

record config =
  Fs :: real
  F_pass :: real
  F_stop :: real
  Rp :: real
  Rs :: real

definition task :: config where
  "task = \<lparr>Fs = 5000, F_pass = 1000, F_stop = 1500, Rp = 1, Rs = 30\<rparr>"

definition wp :: "config \<Rightarrow> real result" where
  wp_def [script_defs]: "wp c = py_div (F_pass c) (Fs c / 2)"

definition ws :: "config \<Rightarrow> real result" where
  ws_def [script_defs]: "ws c = py_div (F_stop c) (Fs c / 2)"

definition A_pass :: "config \<Rightarrow> real" where
  A_pass_def [script_defs]: "A_pass c = 10 powr (- Rp c / 20)"

definition A_stop :: "config \<Rightarrow> real" where
  A_stop_def [script_defs]: "A_stop c = 10 powr (- Rs c / 20)"

section \<open>The SpecNormalizer contract\<close>

record normalized_spec =
  omegaPass :: real
  omegaStop :: real
  linearPassTolerance :: real
  linearStopTolerance :: real

definition valid_spec :: "config \<Rightarrow> bool" where
  "valid_spec c \<longleftrightarrow> 0 < F_pass c \<and> F_pass c < F_stop c \<and> F_stop c < Fs c / 2"

definition normalize :: "config \<Rightarrow> normalized_spec result" where
  normalize_def [designer_defs]:
  "normalize c =
     (if F_stop c \<le> F_pass c
         \<or> \<not> (0 < F_pass c \<and> F_pass c < Fs c / 2)
         \<or> \<not> (0 < F_stop c \<and> F_stop c < Fs c / 2)
      then Inl InvalidSpec
      else Inr \<lparr>omegaPass = F_pass c / (Fs c / 2),
                omegaStop = F_stop c / (Fs c / 2),
                linearPassTolerance = 10 powr (- Rp c / 20),
                linearStopTolerance = 10 powr (- Rs c / 20)\<rparr>)"

section \<open>Successful and failing runs of the normalisation\<close>

lemma valid_spec_rate: "valid_spec c \<Longrightarrow> 0 < Fs c"
  by (auto simp: valid_spec_def)

lemma task_valid [simp]: "valid_spec task"
  by (simp add: valid_spec_def task_def)

lemma task_fields [simp]:
  "Fs task = 5000" "F_pass task = 1000" "F_stop task = 1500" "Rp task = 1" "Rs task = 30"
  by (simp_all add: task_def)

lemma wp_ok: "Fs c \<noteq> 0 \<Longrightarrow> wp c = Inr (F_pass c / (Fs c / 2))"
  by (simp add: wp_def)

lemma ws_ok: "Fs c \<noteq> 0 \<Longrightarrow> ws c = Inr (F_stop c / (Fs c / 2))"
  by (simp add: ws_def)

lemma wp_valid: "valid_spec c \<Longrightarrow> wp c = Inr (F_pass c / (Fs c / 2))"
  by (rule wp_ok) (auto dest: valid_spec_rate)

lemma ws_valid: "valid_spec c \<Longrightarrow> ws c = Inr (F_stop c / (Fs c / 2))"
  by (rule ws_ok) (auto dest: valid_spec_rate)

lemma wp_eq_Inr_iff [result_iffs]: "wp c = Inr p \<longleftrightarrow> Fs c \<noteq> 0 \<and> p = F_pass c / (Fs c / 2)"
  by (auto simp: wp_def py_div_def)

lemma ws_eq_Inr_iff [result_iffs]: "ws c = Inr s \<longleftrightarrow> Fs c \<noteq> 0 \<and> s = F_stop c / (Fs c / 2)"
  by (auto simp: ws_def py_div_def)

lemma wp_eq_Inl_iff [result_iffs]: "wp c = Inl e \<longleftrightarrow> Fs c = 0 \<and> e = ZeroDivision"
  by (auto simp: wp_def py_div_def)

lemma ws_eq_Inl_iff [result_iffs]: "ws c = Inl e \<longleftrightarrow> Fs c = 0 \<and> e = ZeroDivision"
  by (auto simp: ws_def py_div_def)

lemma normalize_ok_iff: "is_ok (normalize c) \<longleftrightarrow> valid_spec c"
  by (auto simp: normalize_def valid_spec_def)

lemma normalize_valid:
  "valid_spec c \<Longrightarrow> normalize c =
     Inr \<lparr>omegaPass = F_pass c / (Fs c / 2), omegaStop = F_stop c / (Fs c / 2),
          linearPassTolerance = 10 powr (- Rp c / 20),
          linearStopTolerance = 10 powr (- Rs c / 20)\<rparr>"
  by (auto simp: normalize_def valid_spec_def)

lemma normalize_invalid: "\<not> valid_spec c \<Longrightarrow> normalize c = Inl InvalidSpec"
  by (auto simp: normalize_def valid_spec_def)

lemma A_pass_pos [simp]: "0 < A_pass c"
  by (simp add: A_pass_def)

lemma A_stop_pos [simp]: "0 < A_stop c"
  by (simp add: A_stop_def)

lemma normalized_band_edges_aux:
  assumes "valid_spec c"
  shows "\<exists>p s. wp c = Inr p \<and> ws c = Inr s \<and> 0 < p \<and> p < s \<and> s < 1"
proof -
  from assms have rate: "0 < Fs c" by (rule valid_spec_rate)
  with assms have "0 < F_pass c / (Fs c / 2)"
    and "F_pass c / (Fs c / 2) < F_stop c / (Fs c / 2)"
    and "F_stop c / (Fs c / 2) < 1"
    by (simp_all add: valid_spec_def divide_strict_right_mono)
  with assms show ?thesis by (simp add: wp_valid ws_valid)
qed

section \<open>Properties\<close>

text \<open>
  C12. For every valid specification (\<open>0 < F_pass < F_stop < Fs / 2\<close>) the script's
  normalised band edges are defined and satisfy \<open>0 < wp < ws < 1\<close>.
\<close>

theorem normalized_band_edges:
  assumes "valid_spec c"
  shows "\<exists>p s. wp c = Inr p \<and> ws c = Inr s \<and> 0 < p \<and> p < s \<and> s < 1"
  using assms by (rule normalized_band_edges_aux)

theorem normalized_band_edges_witness:
  "valid_spec task \<and> (\<exists>p s. wp task = Inr p \<and> ws task = Inr s \<and> 0 < p \<and> p < s \<and> s < 1)"
  using normalized_band_edges [of task] by simp

text \<open>
  C24. Whenever the SpecNormalizer contract accepts a specification, the four values the
  script computes (\<open>wp\<close>, \<open>ws\<close>, \<open>A_pass\<close>, \<open>A_stop\<close>) are exactly the fields of the
  normalised specification the contract returns.
\<close>

theorem script_refines_normalize:
  assumes "normalize c = Inr n"
  shows "wp c = Inr (omegaPass n) \<and> ws c = Inr (omegaStop n)
     \<and> A_pass c = linearPassTolerance n \<and> A_stop c = linearStopTolerance n"
proof -
  from assms have "is_ok (normalize c)" by simp
  then have v: "valid_spec c" by (simp add: normalize_ok_iff)
  with assms show ?thesis
    by (auto simp: normalize_valid wp_valid ws_valid A_pass_def A_stop_def)
qed

theorem script_refines_normalize_witness:
  "\<exists>n. normalize task = Inr n \<and> wp task = Inr (omegaPass n) \<and> ws task = Inr (omegaStop n)
     \<and> A_pass task = linearPassTolerance n \<and> A_stop task = linearStopTolerance n"
proof -
  obtain n where n: "normalize task = Inr n"
    using normalize_valid [OF task_valid] by blast
  from script_refines_normalize [OF n] n show ?thesis by blast
qed

text \<open>
  The script computes its normalised values for the literal parameters as its
  comments say: \<open>wp = 0.4\<close>, \<open>ws = 0.6\<close>, \<open>A_pass\<close> about \<open>0.891\<close> and \<open>A_stop\<close> about
  \<open>0.0316\<close>.
\<close>

theorem task_normalized_values:
  "wp task = Inr 0.4 \<and> ws task = Inr 0.6
     \<and> 0.891 < A_pass task \<and> A_pass task < 0.892
     \<and> 0.0316 < A_stop task \<and> A_stop task < 0.0317"
proof -
  have p: "A_pass task = (1 / 10) powr (real 1 / real 20)"
    by (simp add: A_pass_def powr_divide powr_minus_divide)
  have s: "A_stop task = (1 / 10) powr (real 3 / real 2)"
    by (simp add: A_stop_def powr_divide powr_minus_divide)
  have "0.891 < A_pass task" "0.0316 < A_stop task"
    unfolding p s by (rule powr_frac_gtI; simp add: power_numeral_reduce)+
  moreover have "A_pass task < 0.892" "A_stop task < 0.0317"
    unfolding p s by (rule powr_frac_lessI; simp add: power_numeral_reduce)+
  ultimately show ?thesis by (simp add: wp_ok ws_ok)
qed

end
