(* ===== verification/Kaiser_Estimator.thy ===== *)
theory Kaiser_Estimator
  imports Spec_Normalizer
begin

text \<open>
  The KaiserParameterEstimator and the script's use of it (\<^verbatim>\<open>src/66.py\<close>, lines 31 to 37).
  \<open>kaiser_beta\<close>, \<open>length_estimate\<close> and \<open>kaiserord\<close> are the closed formulas of the
  contract: the shape parameter by attenuation range, the length estimate, and the call
  that returns both or fails with \<open>InvalidTransitionWidth\<close>. \<open>estimate\<close> is the contract
  as a whole, which forces the length to the next odd integer. \<open>delta_w\<close>, \<open>M_kaiser\<close> and
  \<open>beta_kaiser\<close> are the script's assignments; the script adds one to the returned length
  unconditionally. The lemmas give the behaviour of the script on every branch, the
  monotonicity and the continuity of the shape parameter, and the relation between the
  script's length and the contract's.
\<close>

section \<open>The estimator contract\<close>

definition kaiser_beta :: "real \<Rightarrow> real" where
  kaiser_beta_def [designer_defs]:
  "kaiser_beta a =
     (if a \<le> 21 then 0
      else if a \<le> 50 then 0.5842 * (a - 21) powr 0.4 + 0.07886 * (a - 21)
      else 0.1102 * (a - 8.7))"

definition length_estimate :: "real \<Rightarrow> real \<Rightarrow> int" where
  length_estimate_def [designer_defs]:
  "length_estimate a width = \<lceil>(a - 8) / (2.285 * width * pi)\<rceil> + 1"

definition kaiserord :: "real \<Rightarrow> real \<Rightarrow> (int \<times> real) result" where
  kaiserord_def [designer_defs]:
  "kaiserord a width =
     (if width \<le> 0 then Inl InvalidTransitionWidth
      else Inr (length_estimate a width, kaiser_beta a))"

definition force_odd :: "int \<Rightarrow> int" where
  "force_odd n = (if even n then n + 1 else n)"

record kaiser_estimate =
  length_est :: int
  beta_est :: real

definition estimate :: "real \<Rightarrow> real \<Rightarrow> kaiser_estimate result" where
  estimate_def [designer_defs]:
  "estimate a width =
     (if width \<le> 0 then Inl InvalidTransitionWidth
      else Inr \<lparr>length_est = force_odd (length_estimate a width), beta_est = kaiser_beta a\<rparr>)"

section \<open>The script's call\<close>

definition delta_w :: "config \<Rightarrow> real result" where
  delta_w_def [script_defs]:
  "delta_w c = rbind (ws c) (\<lambda>s. rbind (wp c) (\<lambda>p. Inr (s - p)))"

definition kaiser_pair :: "config \<Rightarrow> (int \<times> real) result" where
  kaiser_pair_def [script_defs]:
  "kaiser_pair c = rbind (delta_w c) (\<lambda>d. kaiserord (Rs c) d)"

definition M_kaiser :: "config \<Rightarrow> int result" where
  M_kaiser_def [script_defs]:
  "M_kaiser c = rbind (kaiser_pair c) (\<lambda>(m, b). Inr (m + 1))"

definition beta_kaiser :: "config \<Rightarrow> real result" where
  beta_kaiser_def [script_defs]:
  "beta_kaiser c = rbind (kaiser_pair c) (\<lambda>(m, b). Inr b)"

section \<open>The shape parameter\<close>

lemma kaiser_beta_low [simp]: "a \<le> 21 \<Longrightarrow> kaiser_beta a = 0"
  by (simp add: kaiser_beta_def)

lemma kaiser_beta_mid:
  "21 < a \<Longrightarrow> a \<le> 50 \<Longrightarrow> kaiser_beta a = 0.5842 * (a - 21) powr 0.4 + 0.07886 * (a - 21)"
  by (simp add: kaiser_beta_def)

lemma kaiser_beta_high: "50 < a \<Longrightarrow> kaiser_beta a = 0.1102 * (a - 8.7)"
  by (simp add: kaiser_beta_def)

lemma kaiser_beta_nonneg: "0 \<le> kaiser_beta a"
  by (simp add: kaiser_beta_def)

lemma powr_29_upper: "(29::real) powr 0.4 < 3.87"
proof -
  have "(29::real) powr (real 2 / real 5) < 3.87"
    by (rule powr_frac_lessI) (simp_all add: power_numeral_reduce)
  then show ?thesis by simp
qed

lemma powr_9_bounds: "2.408 < (9::real) powr 0.4" "(9::real) powr 0.4 < 2.409"
proof -
  have "2.408 < (9::real) powr (real 2 / real 5)"
    by (rule powr_frac_gtI) (simp_all add: power_numeral_reduce)
  then show "2.408 < (9::real) powr 0.4" by simp
  have "(9::real) powr (real 2 / real 5) < 2.409"
    by (rule powr_frac_lessI) (simp_all add: power_numeral_reduce)
  then show "(9::real) powr 0.4 < 2.409" by simp
qed

lemma beta_mid_bound:
  fixes p a :: real
  shows "p < 3.87 \<Longrightarrow> a \<le> 50 \<Longrightarrow> 0.5842 * p + 0.07886 * (a - 21) < 4.548"
  by (simp add: field_simps)

lemma beta_mid_mono:
  fixes p q a b :: real
  shows "p \<le> q \<Longrightarrow> a \<le> b \<Longrightarrow>
    0.5842 * p + 0.07886 * (a - 21) \<le> 0.5842 * q + 0.07886 * (b - 21)"
  by (intro add_mono mult_left_mono) simp_all

lemma kaiser_beta_mid_le:
  assumes "a \<le> 50"
  shows "kaiser_beta a < 4.548"
proof (cases "a \<le> 21")
  case True
  then show ?thesis by simp
next
  case False
  with assms have "(a - 21) powr 0.4 \<le> 29 powr 0.4"
    by (intro powr_mono2) simp_all
  with powr_29_upper have "(a - 21) powr 0.4 < 3.87" by linarith
  with assms have "0.5842 * (a - 21) powr 0.4 + 0.07886 * (a - 21) < 4.548"
    by (intro beta_mid_bound)
  with False assms show ?thesis by (simp only: kaiser_beta_mid not_le)
qed

lemma kaiser_beta_high_ge: "50 < a \<Longrightarrow> 4.55126 < kaiser_beta a"
  by (simp add: kaiser_beta_high)

lemma kaiser_beta_mono: "a \<le> b \<Longrightarrow> kaiser_beta a \<le> kaiser_beta b"
proof -
  assume le: "a \<le> b"
  consider "b \<le> 21" | "a \<le> 21" "21 < b" | "21 < a" "b \<le> 50" | "a \<le> 50" "50 < b" | "50 < a"
    by linarith
  then show ?thesis
  proof cases
    case 1
    with le show ?thesis by simp
  next
    case 2
    then show ?thesis by (simp add: kaiser_beta_nonneg)
  next
    case 3
    with le have "(a - 21) powr 0.4 \<le> (b - 21) powr 0.4"
      by (intro powr_mono2) simp_all
    with le have "0.5842 * (a - 21) powr 0.4 + 0.07886 * (a - 21)
        \<le> 0.5842 * (b - 21) powr 0.4 + 0.07886 * (b - 21)"
      by (intro beta_mid_mono)
    moreover from 3 le have "21 < b" "a \<le> 50" by simp_all
    ultimately show ?thesis using 3 by (simp only: kaiser_beta_mid)
  next
    case 4
    with kaiser_beta_mid_le [of a] kaiser_beta_high_ge [of b] show ?thesis by simp
  next
    case 5
    with le show ?thesis by (simp add: kaiser_beta_high)
  qed
qed

lemma kaiser_beta_jump:
  assumes "50 < a"
  shows "0.003 < kaiser_beta a - kaiser_beta 50"
proof -
  have "kaiser_beta 50 < 4.548" by (rule kaiser_beta_mid_le) simp
  moreover from assms have "4.55126 < kaiser_beta a" by (rule kaiser_beta_high_ge)
  ultimately show ?thesis by simp
qed

lemma kaiser_beta_not_continuous: "\<not> isCont kaiser_beta 50"
proof
  assume "isCont kaiser_beta 50"
  then have "kaiser_beta \<midarrow>50\<rightarrow> kaiser_beta 50" by (simp add: isCont_def)
  then have "\<exists>s>0. \<forall>x. x \<noteq> 50 \<and> dist x 50 < s
      \<longrightarrow> dist (kaiser_beta x) (kaiser_beta 50) < 0.003"
    unfolding LIM_def by (rule allE [where x = "0.003"]) simp
  then obtain s where s: "0 < s"
    and close: "\<And>x. x \<noteq> 50 \<Longrightarrow> dist x 50 < s \<Longrightarrow> dist (kaiser_beta x) (kaiser_beta 50) < 0.003"
    by blast
  have "dist (kaiser_beta (50 + s / 2)) (kaiser_beta 50) < 0.003"
    using s by (intro close) (simp_all add: dist_real_def)
  moreover have "0.003 < kaiser_beta (50 + s / 2) - kaiser_beta 50"
    using s by (intro kaiser_beta_jump) simp
  ultimately show False by (simp add: dist_real_def)
qed


text \<open>
  Below 50 dB the shape parameter is a ramp that starts at 21 dB; the ramp is continuous
  everywhere, which settles continuity at every attenuation but 50.
\<close>

lemma kaiser_beta_ramp:
  "a \<le> 50 \<Longrightarrow> kaiser_beta a = 0.5842 * (max (a - 21) 0) powr 0.4 + 0.07886 * max (a - 21) 0"
  by (simp add: kaiser_beta_def max_def)

lemma isCont_beta_ramp:
  "isCont (\<lambda>x::real. 0.5842 * (max (x - 21) 0) powr 0.4 + 0.07886 * max (x - 21) 0) a"
proof -
  have "isCont (\<lambda>x::real. (max (x - 21) 0) powr 0.4) a"
    unfolding isCont_def
    by (rule tendsto_powr2) (auto intro!: tendsto_eq_intros)
  moreover have "isCont (\<lambda>x::real. max (x - 21) 0) a"
    by (intro continuous_intros)
  ultimately show ?thesis
    by (intro continuous_add continuous_mult continuous_const)
qed

lemma kaiser_beta_continuous_below:
  assumes "a < 50"
  shows "isCont kaiser_beta a"
proof -
  have "eventually (\<lambda>x. kaiser_beta x
      = 0.5842 * (max (x - 21) 0) powr 0.4 + 0.07886 * max (x - 21) 0) (nhds a)"
    unfolding eventually_nhds
    using assms by (intro exI [of _ "{..<50}"]) (simp add: kaiser_beta_ramp)
  from isCont_cong [OF this] isCont_beta_ramp show ?thesis by blast
qed

lemma kaiser_beta_continuous_above:
  assumes "50 < a"
  shows "isCont kaiser_beta a"
proof -
  have ev: "eventually (\<lambda>x. kaiser_beta x = 0.1102 * (x - 8.7)) (nhds a)"
    unfolding eventually_nhds
    using assms by (intro exI [of _ "{50<..}"]) (simp add: kaiser_beta_high)
  have "isCont (\<lambda>x::real. 0.1102 * (x - 8.7)) a"
    by (intro continuous_intros)
  with isCont_cong [OF ev] show ?thesis by blast
qed

lemma kaiser_beta_continuous_iff: "isCont kaiser_beta a \<longleftrightarrow> a \<noteq> 50"
  using kaiser_beta_continuous_below [of a] kaiser_beta_continuous_above [of a]
    kaiser_beta_not_continuous
  by (cases a "50::real" rule: linorder_cases) auto

section \<open>The length estimate\<close>

lemma force_odd_odd [simp]: "odd (force_odd n)"
  by (simp add: force_odd_def)

lemma force_odd_cases: "force_odd n = (if even n then n + 1 else n)"
  by (simp add: force_odd_def)

lemma force_odd_bounds: "n \<le> force_odd n \<and> force_odd n \<le> n + 1"
  by (simp add: force_odd_def)

lemma force_odd_idem [simp]: "force_odd (force_odd n) = force_odd n"
  by (simp add: force_odd_def)

lemma length_estimate_task: "length_estimate 30 (1 / 5) = 17"
proof -
  have "\<lceil>(30 - 8) / (2.285 * (1 / 5) * pi)\<rceil> = (16::int)"
  proof (rule ceiling_eqI)
    show "of_int 16 - 1 < (30 - 8) / (2.285 * (1 / 5) * pi)"
      using pi_bounds pi_gt_zero by (simp add: field_simps)
    show "(30 - 8) / (2.285 * (1 / 5) * pi) \<le> of_int 16"
      using pi_bounds pi_gt_zero by (simp add: field_simps)
  qed
  then show ?thesis by (simp add: length_estimate_def)
qed

lemma length_estimate_antimono_width:
  assumes "8 \<le> a" "0 < w" "w \<le> w'"
  shows "length_estimate a w' \<le> length_estimate a w"
proof -
  from assms have "(a - 8) / (2.285 * w' * pi) \<le> (a - 8) / (2.285 * w * pi)"
    by (intro divide_left_mono mult_right_mono mult_left_mono mult_pos_pos) simp_all
  then show ?thesis by (simp add: length_estimate_def ceiling_mono)
qed

lemma length_estimate_ge_1:
  assumes "8 \<le> a" "0 < w"
  shows "1 \<le> length_estimate a w"
proof -
  from assms have "0 \<le> (a - 8) / (2.285 * w * pi)"
    by (intro divide_nonneg_pos mult_pos_pos) simp_all
  from ceiling_mono [OF this] show ?thesis by (simp add: length_estimate_def)
qed

section \<open>Runs of the script's call\<close>

lemma delta_w_eq:
  "delta_w c = (if Fs c = 0 then Inl ZeroDivision
     else Inr (F_stop c / (Fs c / 2) - F_pass c / (Fs c / 2)))"
  by (simp add: delta_w_def wp_def ws_def)

lemma delta_w_task [simp]: "delta_w task = Inr (1 / 5)"
  by (simp add: delta_w_eq)

lemma kaiser_pair_ok:
  "delta_w c = Inr d \<Longrightarrow> 0 < d \<Longrightarrow>
     kaiser_pair c = Inr (length_estimate (Rs c) d, kaiser_beta (Rs c))"
  by (simp add: kaiser_pair_def kaiserord_def)

lemma kaiser_pair_narrow:
  "delta_w c = Inr d \<Longrightarrow> d \<le> 0 \<Longrightarrow> kaiser_pair c = Inl InvalidTransitionWidth"
  by (simp add: kaiser_pair_def kaiserord_def)

lemma M_kaiser_ok:
  "delta_w c = Inr d \<Longrightarrow> 0 < d \<Longrightarrow> M_kaiser c = Inr (length_estimate (Rs c) d + 1)"
  by (simp add: M_kaiser_def kaiser_pair_ok)

lemma beta_kaiser_ok:
  "delta_w c = Inr d \<Longrightarrow> 0 < d \<Longrightarrow> beta_kaiser c = Inr (kaiser_beta (Rs c))"
  by (simp add: beta_kaiser_def kaiser_pair_ok)

lemma beta_kaiser_eq_Inr_iff [result_iffs]:
  "beta_kaiser c = Inr b \<longleftrightarrow>
     (\<exists>d. delta_w c = Inr d \<and> 0 < d) \<and> b = kaiser_beta (Rs c)"
  by (cases "delta_w c") (auto simp: beta_kaiser_def kaiser_pair_def kaiserord_def)

lemma M_kaiser_eq_Inr_iff [result_iffs]:
  "M_kaiser c = Inr m \<longleftrightarrow>
     (\<exists>d. delta_w c = Inr d \<and> 0 < d \<and> m = length_estimate (Rs c) d + 1)"
  by (cases "delta_w c") (auto simp: M_kaiser_def kaiser_pair_def kaiserord_def)

lemma valid_spec_delta_w:
  assumes "valid_spec c"
  shows "\<exists>d. delta_w c = Inr d \<and> 0 < d \<and> d < 1"
proof -
  from normalized_band_edges_aux [OF assms] obtain p s
    where "wp c = Inr p" "ws c = Inr s" "0 < p" "p < s" "s < 1" by blast
  then show ?thesis by (simp add: delta_w_def)
qed

lemma delta_w_Rs_update [simp]: "delta_w (c\<lparr>Rs := r\<rparr>) = delta_w c"
  by (simp add: delta_w_eq)

lemma beta_kaiser_Rs_update:
  "delta_w c = Inr d \<Longrightarrow> 0 < d \<Longrightarrow> beta_kaiser (c\<lparr>Rs := r\<rparr>) = Inr (kaiser_beta r)"
  using beta_kaiser_ok [of "c\<lparr>Rs := r\<rparr>" d] by simp

lemma estimate_ok:
  "0 < d \<Longrightarrow> estimate a d =
     Inr \<lparr>length_est = force_odd (length_estimate a d), beta_est = kaiser_beta a\<rparr>"
  by (simp add: estimate_def)

lemma kaiser_beta_30: "2.116 < kaiser_beta 30" "kaiser_beta 30 < 2.118"
proof -
  have "kaiser_beta 30 = 0.5842 * 9 powr 0.4 + 0.07886 * 9"
    by (simp add: kaiser_beta_def)
  moreover have "2.116 < 0.5842 * (9::real) powr 0.4 + 0.07886 * 9"
    and "0.5842 * (9::real) powr 0.4 + 0.07886 * 9 < 2.118"
    using powr_9_bounds by (simp_all add: field_simps)
  ultimately show "2.116 < kaiser_beta 30" "kaiser_beta 30 < 2.118" by simp_all
qed

section \<open>Properties\<close>

text \<open>
  C2. For the script's literal parameters (30 dB over a transition width of 0.2) the
  Kaiser length the script uses is 18 and the shape parameter lies between 2.116 and
  2.118.
\<close>

theorem task_kaiser_estimate:
  "M_kaiser task = Inr 18 \<and> (\<exists>b. beta_kaiser task = Inr b \<and> 2.116 < b \<and> b < 2.118)"
  using M_kaiser_ok [OF delta_w_task] beta_kaiser_ok [OF delta_w_task] kaiser_beta_30
  by (simp add: length_estimate_task)

text \<open>
  C1. The script's length against the estimator contract, which forces the length to the
  next odd integer: the contract's length is always odd; the script's length equals it
  exactly when the length estimate is even, and otherwise it is one more and even.
\<close>

theorem M_kaiser_versus_estimate:
  assumes "delta_w c = Inr d" "0 < d"
  shows "\<exists>m e. M_kaiser c = Inr m \<and> estimate (Rs c) d = Inr e \<and> odd (length_est e)
     \<and> (if even (length_estimate (Rs c) d) then m = length_est e
        else m = length_est e + 1 \<and> even m)"
  using assms by (simp add: M_kaiser_ok estimate_ok force_odd_cases)

theorem M_kaiser_versus_estimate_witness:
  "\<exists>m e. M_kaiser task = Inr m \<and> estimate (Rs task) (1 / 5) = Inr e
     \<and> length_est e = 17 \<and> m = 18"
  using M_kaiser_versus_estimate [OF delta_w_task]
  by (auto simp: length_estimate_task estimate_ok force_odd_cases)

text \<open>
  C21. The shape parameter the script obtains never decreases when the required stopband
  attenuation grows.
\<close>

theorem beta_kaiser_mono:
  assumes "Rs c \<le> Rs c'" "beta_kaiser c = Inr b" "beta_kaiser c' = Inr b'"
  shows "b \<le> b'"
  using assms by (auto simp: beta_kaiser_eq_Inr_iff intro: kaiser_beta_mono)

theorem beta_kaiser_mono_witness:
  "Rs task \<le> Rs (task\<lparr>Rs := 60\<rparr>) \<and> (\<exists>b b'. beta_kaiser task = Inr b
     \<and> beta_kaiser (task\<lparr>Rs := 60\<rparr>) = Inr b' \<and> b \<le> b')"
proof -
  have b: "beta_kaiser task = Inr (kaiser_beta 30)"
    using beta_kaiser_ok [OF delta_w_task] by simp
  have b': "beta_kaiser (task\<lparr>Rs := 60\<rparr>) = Inr (kaiser_beta 60)"
    by (rule beta_kaiser_Rs_update [OF delta_w_task]) simp
  have "Rs task \<le> Rs (task\<lparr>Rs := 60\<rparr>)" by simp
  from beta_kaiser_mono [OF this b b'] b b' show ?thesis by simp
qed

text \<open>
  C11. As a function of the required attenuation, the shape parameter the script obtains
  is continuous at every attenuation except 50 dB, where the two closed formulas do not
  meet.
\<close>

theorem beta_kaiser_continuity:
  assumes "delta_w c = Inr d" "0 < d"
  shows "isCont (\<lambda>r. case beta_kaiser (c\<lparr>Rs := r\<rparr>) of Inl e \<Rightarrow> 0 | Inr b \<Rightarrow> b) a
     \<longleftrightarrow> a \<noteq> 50"
  using assms by (simp add: beta_kaiser_Rs_update kaiser_beta_continuous_iff)

theorem beta_kaiser_continuity_witness:
  "\<not> isCont (\<lambda>r. case beta_kaiser (task\<lparr>Rs := r\<rparr>) of Inl e \<Rightarrow> 0 | Inr b \<Rightarrow> b) 50
     \<and> isCont (\<lambda>r. case beta_kaiser (task\<lparr>Rs := r\<rparr>) of Inl e \<Rightarrow> 0 | Inr b \<Rightarrow> b) 30"
  using beta_kaiser_continuity [OF delta_w_task, of 50]
    beta_kaiser_continuity [OF delta_w_task, of 30] by simp

end
