(* ===== verification/Windowed_Sinc.thy ===== *)
theory Windowed_Sinc
  imports Kaiser_Estimator
begin

text \<open>
  The WindowedSincDesigner and the script's two window designs (\<^verbatim>\<open>src/66.py\<close>, lines
  24 to 27 and 40 to 43). The designer is built in the order of its contract: the ideal
  low-pass response \<open>ideal_lowpass\<close> (a sinc centred at \<open>(M - 1) / 2\<close>), the window
  coefficients \<open>hann\<close> and \<open>kaiser_window\<close>, their pointwise product \<open>windowed_sinc\<close>, and
  the normalisation \<open>dc_normalize\<close> to unit gain at frequency zero; \<open>firwin\<close> composes
  them behind the length check. The modified Bessel function of the Kaiser window is a
  series summed by a loop over the state \<open>i0_state\<close> until the last term falls below a
  tolerance relative to the sum; the loop is kept as a \<open>while\<close> loop and proved to
  terminate for every argument. \<open>M_window\<close>, \<open>Fc_window\<close>, \<open>h_window\<close>, \<open>Fc_kaiser\<close>
  and \<open>h_kaiser\<close> are the script's assignments.

  The contract does not say what the normalisation does when the taps sum to zero; here
  it fails with \<open>ZeroDivision\<close>. The section on half-band designs shows that this cannot
  happen for a Hann design whose cutoff is half the Nyquist frequency, which is the
  script's case. The lemmas then give symmetry, length and gain of every design, the
  branches of the two script designs, and the taps of the Kaiser design in terms of the
  results of the series loop.
\<close>

section \<open>The ideal response and the Hann window\<close>

datatype window = Hann | Kaiser real

definition sinc :: "real \<Rightarrow> real" where
  "sinc x = (if x = 0 then 1 else sin (pi * x) / (pi * x))"

definition ideal_lowpass :: "nat \<Rightarrow> real \<Rightarrow> nat \<Rightarrow> real" where
  ideal_lowpass_def [designer_defs]:
  "ideal_lowpass M cutoff n = cutoff * sinc (cutoff * (real n - (real M - 1) / 2))"

definition hann :: "nat \<Rightarrow> nat \<Rightarrow> real" where
  hann_def [designer_defs]:
  "hann M n = 0.5 - 0.5 * cos (2 * pi * real n / (real M - 1))"

section \<open>The Bessel series loop and the Kaiser window\<close>

record i0_state =
  idx :: nat
  term_k :: real
  total :: real

definition i0_tol :: real where
  "i0_tol = 1 / 10 ^ 12"

definition i0_init :: i0_state where
  "i0_init = \<lparr>idx = 0, term_k = 1, total = 1\<rparr>"

definition i0_cond :: "i0_state \<Rightarrow> bool" where
  "i0_cond s \<longleftrightarrow> i0_tol * total s < term_k s"

definition i0_step :: "real \<Rightarrow> i0_state \<Rightarrow> i0_state" where
  "i0_step x s =
     (let k = idx s + 1; t = term_k s * (x / (2 * real k))\<^sup>2
      in \<lparr>idx = k, term_k = t, total = total s + t\<rparr>)"

definition i0_loop :: "real \<Rightarrow> i0_state option" where
  "i0_loop x = while_option i0_cond (i0_step x) i0_init"

definition bessel_i0 :: "real \<Rightarrow> real" where
  bessel_i0_def [designer_defs]:
  "bessel_i0 x = total (while i0_cond (i0_step x) i0_init)"

definition kaiser_window :: "real \<Rightarrow> nat \<Rightarrow> nat \<Rightarrow> real" where
  kaiser_window_def [designer_defs]:
  "kaiser_window beta M n =
     bessel_i0 (beta * sqrt (1 - (2 * real n / (real M - 1) - 1)\<^sup>2)) / bessel_i0 beta"

section \<open>The designer\<close>

fun window_coeff :: "window \<Rightarrow> nat \<Rightarrow> nat \<Rightarrow> real" where
  "window_coeff Hann M n = hann M n"
| "window_coeff (Kaiser beta) M n = kaiser_window beta M n"

definition windowed_sinc :: "nat \<Rightarrow> real \<Rightarrow> window \<Rightarrow> real list" where
  windowed_sinc_def [designer_defs]:
  "windowed_sinc M cutoff win =
     tabulate M (\<lambda>n. ideal_lowpass M cutoff n * window_coeff win M n)"

definition dc_normalize :: "real list \<Rightarrow> real list result" where
  dc_normalize_def [designer_defs]:
  "dc_normalize h =
     (if sum_list h = 0 then Inl ZeroDivision else Inr (map (\<lambda>x. x / sum_list h) h))"

definition firwin :: "int \<Rightarrow> real \<Rightarrow> window \<Rightarrow> real list result" where
  firwin_def [designer_defs]:
  "firwin numtaps cutoff win =
     (if even numtaps \<or> numtaps < 3 then Inl InvalidLength
      else dc_normalize (windowed_sinc (nat numtaps) cutoff win))"

section \<open>The script's window designs\<close>

definition M_window :: int where
  M_window_def [script_defs]: "M_window = 47"

definition Fc_window :: "config \<Rightarrow> real result" where
  Fc_window_def [script_defs]:
  "Fc_window c = py_div ((F_pass c + F_stop c) / 2) (Fs c / 2)"

definition h_window :: "config \<Rightarrow> real list result" where
  h_window_def [script_defs]:
  "h_window c = rbind (Fc_window c) (\<lambda>fc. firwin M_window fc Hann)"

definition Fc_kaiser :: "config \<Rightarrow> real result" where
  Fc_kaiser_def [script_defs]:
  "Fc_kaiser c = py_div ((F_pass c + F_stop c) / 2) (Fs c / 2)"

definition h_kaiser :: "config \<Rightarrow> real list result" where
  h_kaiser_def [script_defs]:
  "h_kaiser c =
     rbind (M_kaiser c) (\<lambda>m. rbind (beta_kaiser c) (\<lambda>b.
       rbind (Fc_kaiser c) (\<lambda>fc. firwin m fc (Kaiser b))))"

section \<open>Termination and value of the Bessel series loop\<close>

text \<open>
  The \<open>k\<close>-th term of the series is \<open>((x / 2) ^ k / k!)\<^sup>2\<close>. The loop keeps the invariant
  that \<open>term_k\<close> is the term of index \<open>idx\<close> and \<open>total\<close> the sum of the terms up to it.
  The terms tend to zero while the sum is at least one, so the loop condition fails from
  some index on.
\<close>

definition i0_term :: "real \<Rightarrow> nat \<Rightarrow> real" where
  "i0_term x k = ((x / 2) ^ k / fact k)\<^sup>2"

definition i0_inv :: "real \<Rightarrow> i0_state \<Rightarrow> bool" where
  "i0_inv x s \<longleftrightarrow> term_k s = i0_term x (idx s) \<and> total s = (\<Sum>j\<le>idx s. i0_term x j)"

lemma i0_tol_pos [simp]: "0 < i0_tol"
  by (simp add: i0_tol_def)

lemma i0_tol_nonneg [simp]: "0 \<le> i0_tol"
  by (simp add: i0_tol_def)

lemma i0_term_0 [simp]: "i0_term x 0 = 1"
  by (simp add: i0_term_def)

lemma i0_term_nonneg [simp]: "0 \<le> i0_term x k"
  by (simp add: i0_term_def)

lemma i0_term_Suc: "i0_term x (Suc k) = i0_term x k * (x / (2 * real (Suc k)))\<^sup>2"
proof -
  have "(x / 2) ^ Suc k / fact (Suc k) = (x / 2) ^ k / fact k * (x / (2 * real (Suc k)))"
    by (simp add: field_simps)
  then show ?thesis
    unfolding i0_term_def by (simp only: power_mult_distrib)
qed

lemma i0_term_minus [simp]: "i0_term (- x) k = i0_term x k"
proof -
  have "((- x / 2) ^ k)\<^sup>2 = ((- x / 2)\<^sup>2) ^ k"
    by (simp add: power_mult [symmetric] mult.commute)
  also have "\<dots> = ((x / 2)\<^sup>2) ^ k" by simp
  also have "\<dots> = ((x / 2) ^ k)\<^sup>2"
    by (simp add: power_mult [symmetric] mult.commute)
  finally have sq: "((- x / 2) ^ k)\<^sup>2 = ((x / 2) ^ k)\<^sup>2" .
  have "i0_term (- x) k = ((- x / 2) ^ k)\<^sup>2 / (fact k)\<^sup>2"
    unfolding i0_term_def by (rule power_divide)
  also have "\<dots> = ((x / 2) ^ k)\<^sup>2 / (fact k)\<^sup>2" by (simp only: sq)
  also have "\<dots> = i0_term x k"
    unfolding i0_term_def by (rule power_divide [symmetric])
  finally show ?thesis .
qed

lemma i0_inv_init: "i0_inv x i0_init"
  by (simp add: i0_inv_def i0_init_def)

lemma i0_inv_step: "i0_inv x s \<Longrightarrow> i0_inv x (i0_step x s)"
  by (simp add: i0_inv_def i0_step_def Let_def i0_term_Suc)

lemma i0_inv_total_ge_1:
  assumes "i0_inv x s"
  shows "1 \<le> total s"
proof -
  have "i0_term x 0 \<le> (\<Sum>j\<le>idx s. i0_term x j)"
    by (rule member_le_sum) simp_all
  with assms show ?thesis by (simp add: i0_inv_def)
qed

lemma i0_term_tendsto_0: "(\<lambda>k. i0_term x k) \<longlonglongrightarrow> 0"
proof -
  have "summable (\<lambda>n. inverse (fact n) * (x / 2) ^ n)"
    by (rule summable_exp)
  then have "(\<lambda>n. inverse (fact n) * (x / 2) ^ n) \<longlonglongrightarrow> 0"
    by (rule summable_LIMSEQ_zero)
  then have "(\<lambda>n. (inverse (fact n) * (x / 2) ^ n)\<^sup>2) \<longlonglongrightarrow> 0\<^sup>2"
    by (rule tendsto_power)
  then show ?thesis by (simp add: i0_term_def field_simps)
qed

lemma i0_term_eventually_small: "\<exists>N. \<forall>k\<ge>N. i0_term x k < i0_tol"
proof -
  have "eventually (\<lambda>k. i0_term x k < i0_tol) sequentially"
    by (rule order_tendstoD [OF i0_term_tendsto_0]) simp
  then show ?thesis by (simp add: eventually_sequentially)
qed

lemma i0_cond_large_term:
  assumes inv: "i0_inv x s" and cond: "i0_cond s"
  shows "i0_tol < i0_term x (idx s)"
proof -
  from inv have "1 \<le> total s" by (rule i0_inv_total_ge_1)
  then have "i0_tol \<le> i0_tol * total s"
    using mult_left_mono [of 1 "total s" i0_tol] by simp
  moreover from cond have "i0_tol * total s < term_k s"
    by (simp add: i0_cond_def)
  ultimately have "i0_tol < term_k s" by linarith
  with inv show ?thesis by (simp add: i0_inv_def)
qed

lemma i0_loop_terminates: "\<exists>s. i0_loop x = Some s"
proof -
  obtain N where N: "\<And>k. N \<le> k \<Longrightarrow> i0_term x k < i0_tol"
    using i0_term_eventually_small by blast
  show ?thesis
    unfolding i0_loop_def
  proof (rule measure_while_option_Some [where P = "i0_inv x" and f = "\<lambda>s. N - idx s"])
    fix s
    assume inv: "i0_inv x s" and cond: "i0_cond s"
    then have "i0_tol < i0_term x (idx s)" by (rule i0_cond_large_term)
    with N [of "idx s"] have "idx s < N" by (cases "N \<le> idx s") auto
    then have "N - idx (i0_step x s) < N - idx s"
      by (simp add: i0_step_def Let_def)
    with inv show "i0_inv x (i0_step x s) \<and> N - idx (i0_step x s) < N - idx s"
      by (simp add: i0_inv_step)
  qed (rule i0_inv_init)
qed

lemma i0_loop_result:
  assumes "i0_loop x = Some s"
  shows "i0_inv x s \<and> \<not> i0_cond s"
proof
  show "i0_inv x s"
    using assms unfolding i0_loop_def
    by (rule while_option_rule [rotated]) (simp_all add: i0_inv_init i0_inv_step)
  show "\<not> i0_cond s"
    using assms unfolding i0_loop_def by (rule while_option_stop)
qed

lemma bessel_i0_loop: "i0_loop x = Some s \<Longrightarrow> bessel_i0 x = total s"
  by (simp add: bessel_i0_def while_def i0_loop_def)

lemma bessel_i0_partial_sum:
  "\<exists>K. bessel_i0 x = (\<Sum>j\<le>K. i0_term x j) \<and> i0_term x K \<le> i0_tol * bessel_i0 x"
proof -
  obtain s where s: "i0_loop x = Some s"
    using i0_loop_terminates by blast
  with i0_loop_result [OF s] show ?thesis
    by (auto simp: bessel_i0_loop i0_inv_def i0_cond_def intro!: exI [of _ "idx s"])
qed

lemma bessel_i0_ge_1: "1 \<le> bessel_i0 x"
proof -
  obtain s where s: "i0_loop x = Some s"
    using i0_loop_terminates by blast
  from i0_loop_result [OF s] have "i0_inv x s" by simp
  then have "1 \<le> total s" by (rule i0_inv_total_ge_1)
  with s show ?thesis by (simp add: bessel_i0_loop)
qed

lemma bessel_i0_pos [simp]: "0 < bessel_i0 x"
  using bessel_i0_ge_1 [of x] by linarith

lemma bessel_i0_nonzero [simp]: "bessel_i0 x \<noteq> 0"
  using bessel_i0_pos [of x] by linarith

lemma i0_step_minus [simp]: "i0_step (- x) = i0_step x"
  by (rule ext) (simp add: i0_step_def)

lemma bessel_i0_minus [simp]: "bessel_i0 (- x) = bessel_i0 x"
  by (simp add: bessel_i0_def)

lemma bessel_i0_0 [simp]: "bessel_i0 0 = 1"
  by (simp add: bessel_i0_def while_unfold i0_cond_def i0_step_def i0_init_def i0_tol_def)

section \<open>The sinc function and the ideal response\<close>

lemma sinc_0 [simp]: "sinc 0 = 1"
  by (simp add: sinc_def)

lemma sinc_minus [simp]: "sinc (- x) = sinc x"
  by (simp add: sinc_def)

lemma sinc_of_int: "k \<noteq> 0 \<Longrightarrow> sinc (of_int k) = 0"
  by (simp add: sinc_def)

lemma abs_sinc_le_1: "\<bar>sinc x\<bar> \<le> 1"
proof (cases "x = 0")
  case True
  then show ?thesis by simp
next
  case False
  then have "0 < \<bar>pi * x\<bar>" by simp
  moreover have "\<bar>sin (pi * x)\<bar> \<le> \<bar>pi * x\<bar>" by (rule abs_sin_x_le_abs_x)
  ultimately have "\<bar>sin (pi * x)\<bar> / \<bar>pi * x\<bar> \<le> 1" by (simp add: divide_le_eq)
  with False show ?thesis by (simp add: sinc_def abs_mult)
qed

lemma sinc_half_even: "0 < m \<Longrightarrow> sinc (real (2 * m) / 2) = 0"
  using sinc_of_int [of "int m"] by simp

lemma sinc_half_odd: "sinc (real (Suc (2 * j)) / 2) = (- 1) ^ j * (2 / (pi * real (Suc (2 * j))))"
proof -
  have "sin (pi * (real (Suc (2 * j)) / 2)) = (- 1) ^ j"
    using sin_cos_npi [of j] by (simp add: mult.commute)
  then show ?thesis by (simp add: sinc_def field_simps)
qed

lemma mirror_offset:
  "n < M \<Longrightarrow> real (M - Suc n) - (real M - 1) / 2 = - (real n - (real M - 1) / 2)"
  by (simp add: of_nat_diff field_simps)

lemma ideal_lowpass_sym:
  assumes "n < M"
  shows "ideal_lowpass M cutoff (M - Suc n) = ideal_lowpass M cutoff n"
proof -
  have "sinc (cutoff * (real (M - Suc n) - (real M - 1) / 2))
      = sinc (- (cutoff * (real n - (real M - 1) / 2)))"
    by (simp only: mirror_offset [OF assms] mult_minus_right)
  then show ?thesis by (simp only: ideal_lowpass_def sinc_minus)
qed

lemma ideal_lowpass_centre: "odd M \<Longrightarrow> ideal_lowpass M cutoff (centre M) = cutoff"
  by (simp add: ideal_lowpass_def odd_centre)

section \<open>The window coefficients\<close>

lemma hann_0 [simp]: "hann M 0 = 0"
  by (simp add: hann_def)

lemma hann_last: "2 \<le> M \<Longrightarrow> hann M (M - Suc 0) = 0"
  by (simp add: hann_def of_nat_diff)

lemma hann_sym:
  assumes "n < M" "2 \<le> M"
  shows "hann M (M - Suc n) = hann M n"
proof -
  from assms have "2 * pi * real (M - Suc n) / (real M - 1)
      = 2 * pi - 2 * pi * real n / (real M - 1)"
    by (simp add: of_nat_diff field_simps)
  then show ?thesis by (simp only: hann_def cos_2pi_minus)
qed

lemma hann_bounds: "0 \<le> hann M n \<and> hann M n \<le> 1"
proof -
  define t where "t = 2 * pi * real n / (real M - 1)"
  have c: "- 1 \<le> cos t" "cos t \<le> 1" by simp_all
  have h: "hann M n = (1 - cos t) / 2" by (simp add: hann_def t_def field_simps)
  from c h show ?thesis by argo
qed

lemma hann_centre:
  assumes "odd M" "3 \<le> M"
  shows "hann M (centre M) = 1"
proof -
  from assms have "2 * pi * real (centre M) / (real M - 1) = pi"
    by (simp add: odd_centre)
  then show ?thesis by (simp only: hann_def cos_pi)
qed

lemma hann_from_centre:
  assumes "odd M" "3 \<le> M"
  shows "hann M (centre M + k) = (1 + cos (pi * real k / real (centre M))) / 2"
proof -
  from assms have L: "real M - 1 = 2 * real (centre M)" "0 < real (centre M)"
    by (simp_all add: odd_centre_twice centre_pos)
  then have "2 * pi * real (centre M + k) / (real M - 1) = pi * real k / real (centre M) + pi"
    by (simp add: field_simps)
  then show ?thesis by (simp add: hann_def del: of_nat_add)
qed

lemma hann_from_centre_decreasing:
  assumes "odd M" "3 \<le> M" "k \<le> k'" "k' \<le> centre M"
  shows "hann M (centre M + k') \<le> hann M (centre M + k)"
proof -
  from assms have L: "0 < real (centre M)" by (simp add: centre_pos)
  have "cos (pi * real k' / real (centre M)) \<le> cos (pi * real k / real (centre M))"
  proof (rule cos_monotone_0_pi_le)
    show "0 \<le> pi * real k / real (centre M)" by simp
    from assms L show "pi * real k / real (centre M) \<le> pi * real k' / real (centre M)"
      by (simp add: divide_right_mono)
    from assms L show "pi * real k' / real (centre M) \<le> pi"
      by (simp add: field_simps)
  qed
  with assms show ?thesis by (simp add: hann_from_centre)
qed

lemma kaiser_arg_sym:
  assumes "n < M" "2 \<le> M"
  shows "(2 * real (M - Suc n) / (real M - 1) - 1)\<^sup>2 = (2 * real n / (real M - 1) - 1)\<^sup>2"
proof -
  from assms have "2 * real (M - Suc n) / (real M - 1) - 1 = - (2 * real n / (real M - 1) - 1)"
    by (simp add: of_nat_diff field_simps)
  then show ?thesis by (simp only: power2_minus)
qed

lemma kaiser_window_sym:
  "n < M \<Longrightarrow> 2 \<le> M \<Longrightarrow> kaiser_window beta M (M - Suc n) = kaiser_window beta M n"
  by (simp only: kaiser_window_def kaiser_arg_sym)

lemma kaiser_window_pos [simp]: "0 < kaiser_window beta M n"
  by (simp add: kaiser_window_def)

lemma kaiser_window_rect [simp]: "kaiser_window 0 M n = 1"
  by (simp add: kaiser_window_def)

lemma kaiser_window_centre:
  assumes "odd M" "3 \<le> M"
  shows "kaiser_window beta M (centre M) = 1"
proof -
  from assms have "2 * real (centre M) / (real M - 1) = 1"
    by (simp add: odd_centre)
  then show ?thesis by (simp add: kaiser_window_def)
qed

lemma window_coeff_sym:
  "n < M \<Longrightarrow> 2 \<le> M \<Longrightarrow> window_coeff win M (M - Suc n) = window_coeff win M n"
  by (cases win) (simp_all only: window_coeff.simps hann_sym kaiser_window_sym)

lemma window_coeff_centre:
  "odd M \<Longrightarrow> 3 \<le> M \<Longrightarrow> window_coeff win M (centre M) = 1"
  by (cases win) (simp_all add: hann_centre kaiser_window_centre)

section \<open>The designer's steps\<close>

lemma length_windowed_sinc [simp]: "length (windowed_sinc M cutoff win) = M"
  by (simp add: windowed_sinc_def)

lemma nth_windowed_sinc:
  "n < M \<Longrightarrow> windowed_sinc M cutoff win ! n = ideal_lowpass M cutoff n * window_coeff win M n"
  by (simp add: windowed_sinc_def)

lemma symmetric_windowed_sinc: "2 \<le> M \<Longrightarrow> symmetric (windowed_sinc M cutoff win)"
  unfolding windowed_sinc_def
  by (rule symmetric_tabulate) (simp only: ideal_lowpass_sym window_coeff_sym)

lemma dc_normalize_eq_Inr_iff [result_iffs]:
  "dc_normalize h = Inr g \<longleftrightarrow> sum_list h \<noteq> 0 \<and> g = map (\<lambda>x. x / sum_list h) h"
  by (auto simp: dc_normalize_def)

lemma dc_normalize_eq_Inl_iff [result_iffs]:
  "dc_normalize h = Inl e \<longleftrightarrow> sum_list h = 0 \<and> e = ZeroDivision"
  by (auto simp: dc_normalize_def)

lemma dc_normalize_props:
  assumes "dc_normalize h = Inr g"
  shows "length g = length h" and "sum_list g = 1" and "symmetric h \<Longrightarrow> symmetric g"
  using assms by (auto simp: dc_normalize_eq_Inr_iff sum_list_map_divide symmetric_map)

lemma firwin_invalid_length:
  "even numtaps \<or> numtaps < 3 \<Longrightarrow> firwin numtaps cutoff win = Inl InvalidLength"
  by (simp add: firwin_def)

lemma firwin_valid_length:
  "odd numtaps \<Longrightarrow> 3 \<le> numtaps \<Longrightarrow>
     firwin numtaps cutoff win = dc_normalize (windowed_sinc (nat numtaps) cutoff win)"
  by (simp add: firwin_def)

lemma firwin_eq_Inr_iff [result_iffs]:
  "firwin numtaps cutoff win = Inr h \<longleftrightarrow>
     odd numtaps \<and> 3 \<le> numtaps \<and> dc_normalize (windowed_sinc (nat numtaps) cutoff win) = Inr h"
  by (auto simp: firwin_def)

lemma firwin_props:
  assumes "firwin numtaps cutoff win = Inr h"
  shows "odd numtaps" and "3 \<le> numtaps" and "int (length h) = numtaps"
    and "sum_list h = 1" and "symmetric h"
proof -
  from assms show odd: "odd numtaps" and ge: "3 \<le> numtaps"
    by (simp_all add: firwin_eq_Inr_iff)
  from assms have n: "dc_normalize (windowed_sinc (nat numtaps) cutoff win) = Inr h"
    by (simp add: firwin_eq_Inr_iff)
  from dc_normalize_props(1) [OF n] ge show "int (length h) = numtaps" by simp
  from n show "sum_list h = 1" by (rule dc_normalize_props)
  from ge have "symmetric (windowed_sinc (nat numtaps) cutoff win)"
    by (intro symmetric_windowed_sinc) simp
  with n show "symmetric h" by (rule dc_normalize_props)
qed

lemma firwin_errors:
  "firwin numtaps cutoff win = Inl e \<Longrightarrow> e = InvalidLength \<or> e = ZeroDivision"
  by (auto simp: firwin_def dc_normalize_def split: if_splits)

lemma firwin_nth:
  assumes "firwin numtaps cutoff win = Inr h" "n < nat numtaps"
  shows "h ! n = ideal_lowpass (nat numtaps) cutoff n * window_coeff win (nat numtaps) n
      / sum_list (windowed_sinc (nat numtaps) cutoff win)"
  using assms by (simp add: firwin_eq_Inr_iff dc_normalize_eq_Inr_iff nth_windowed_sinc)

section \<open>Half-band designs\<close>

text \<open>
  At the cutoff \<open>1 / 2\<close> the ideal response vanishes at every even distance from the
  centre and alternates in sign at the odd distances, while the Hann window decreases from
  the centre outwards. The sum of the taps before normalisation is therefore the centre
  tap \<open>1 / 2\<close> plus an alternating sum of decreasing terms, hence at least \<open>1 / 2\<close>: the
  normalisation never divides by zero.
\<close>

lemma halfband_hann_expand:
  assumes "odd M" "3 \<le> M"
  shows "sum_list (windowed_sinc M (1 / 2) Hann)
    = 1 / 2 + (\<Sum>k<centre M. sinc (real (Suc k) / 2) * hann M (centre M + Suc k))"
proof -
  define L where "L = centre M"
  define f where "f n = ideal_lowpass M (1 / 2) n * hann M n" for n
  from assms have M: "M = 2 * L + 1"
    by (auto simp: L_def centre_def elim!: oddE)
  have sym: "f (2 * L - n) = f n" if "n < 2 * L + 1" for n
  proof -
    from that M have n: "n < M" and "2 * L - n = M - Suc n" by simp_all
    with assms show ?thesis by (simp add: f_def ideal_lowpass_sym hann_sym)
  qed
  have "windowed_sinc M (1 / 2) Hann = tabulate M f"
    unfolding windowed_sinc_def by (rule tabulate_cong) (simp add: f_def)
  then have "sum_list (windowed_sinc M (1 / 2) Hann) = sum_list (tabulate (2 * L + 1) f)"
    by (simp only: M [symmetric])
  also have "\<dots> = f L + 2 * (\<Sum>k<L. f (L + Suc k))"
    by (rule sum_list_tabulate_mirror) (rule sym)
  also have "f L = 1 / 2"
    using assms by (simp add: f_def L_def ideal_lowpass_centre hann_centre)
  also have "2 * (\<Sum>k<L. f (L + Suc k)) = (\<Sum>k<L. sinc (real (Suc k) / 2) * hann M (L + Suc k))"
  proof -
    have "2 * f (L + Suc k) = sinc (real (Suc k) / 2) * hann M (L + Suc k)" for k
    proof -
      from assms have "real (L + Suc k) - (real M - 1) / 2 = real (Suc k)"
        by (simp add: L_def odd_centre)
      then have "ideal_lowpass M (1 / 2) (L + Suc k) = 1 / 2 * sinc (real (Suc k) / 2)"
        by (simp add: ideal_lowpass_def del: of_nat_add of_nat_Suc)
      then show ?thesis by (simp add: f_def)
    qed
    then show ?thesis by (simp add: sum_distrib_left del: of_nat_Suc)
  qed
  finally show ?thesis by (simp only: L_def)
qed

lemma halfband_tail_nonneg:
  assumes "odd M" "3 \<le> M"
  shows "0 \<le> (\<Sum>j<Suc (centre M) div 2.
      (- 1) ^ j * (2 / (pi * real (Suc (2 * j))) * hann M (centre M + Suc (2 * j))))"
proof (rule alternating_sum_nonneg)
  fix j
  show "0 \<le> 2 / (pi * real (Suc (2 * j))) * hann M (centre M + Suc (2 * j))"
    using hann_bounds [of M "centre M + Suc (2 * j)"] by simp
next
  fix j
  assume "Suc j < Suc (centre M) div 2"
  then have le: "Suc (2 * Suc j) \<le> centre M" by simp
  have "2 / (pi * real (Suc (2 * Suc j))) \<le> 2 / (pi * real (Suc (2 * j)))"
    by (intro divide_left_mono mult_left_mono mult_pos_pos) simp_all
  moreover have "hann M (centre M + Suc (2 * Suc j)) \<le> hann M (centre M + Suc (2 * j))"
    using assms le by (intro hann_from_centre_decreasing) simp_all
  moreover have "0 \<le> hann M (centre M + Suc (2 * Suc j))"
    using hann_bounds by blast
  ultimately show "2 / (pi * real (Suc (2 * Suc j))) * hann M (centre M + Suc (2 * Suc j))
      \<le> 2 / (pi * real (Suc (2 * j))) * hann M (centre M + Suc (2 * j))"
    by (intro mult_mono) simp_all
qed

lemma halfband_hann_sum:
  assumes "odd M" "3 \<le> M"
  shows "1 / 2 \<le> sum_list (windowed_sinc M (1 / 2) Hann)"
proof -
  define L where "L = centre M"
  define d where "d k = (if k = 0 then 0 else sinc (real k / 2) * hann M (L + k))" for k
  have "(\<Sum>k<L. sinc (real (Suc k) / 2) * hann M (L + Suc k)) = (\<Sum>k<L. d (Suc k))"
    by (simp add: d_def del: of_nat_Suc)
  also have "\<dots> = (\<Sum>k<Suc L. d k)"
  proof -
    have "d 0 = 0" by (simp add: d_def)
    with sum.lessThan_Suc_shift [of d L] show ?thesis by (simp only: add_0)
  qed
  also have "\<dots> = (\<Sum>j<Suc L div 2. d (Suc (2 * j)))"
  proof (rule sum_odd_indices)
    fix k :: nat
    assume "even k"
    then obtain m where "k = 2 * m" by (auto elim: evenE)
    then show "d k = 0"
      using sinc_half_even [of m] by (cases "m = 0") (simp_all add: d_def)
  qed
  also have "\<dots> = (\<Sum>j<Suc L div 2.
      (- 1) ^ j * (2 / (pi * real (Suc (2 * j))) * hann M (L + Suc (2 * j))))"
    by (rule sum.cong [OF refl]) (simp add: d_def sinc_half_odd del: of_nat_Suc)
  finally show ?thesis
    using halfband_tail_nonneg [OF assms] halfband_hann_expand [OF assms] by (simp add: L_def)
qed

lemma halfband_hann_firwin:
  assumes "odd M" "3 \<le> M"
  shows "firwin M (1 / 2) Hann
    = Inr (map (\<lambda>x. x / sum_list (windowed_sinc (nat M) (1 / 2) Hann))
        (windowed_sinc (nat M) (1 / 2) Hann))"
proof -
  from assms have "odd (nat M)" "3 \<le> nat M" by (simp_all add: even_nat_iff)
  from halfband_hann_sum [OF this] have "sum_list (windowed_sinc (nat M) (1 / 2) Hann) \<noteq> 0"
    by simp
  with assms show ?thesis by (simp add: firwin_valid_length dc_normalize_def)
qed

section \<open>Runs of the script's window designs\<close>

lemma Fc_window_eq:
  "Fc_window c = (if Fs c = 0 then Inl ZeroDivision else Inr ((F_pass c + F_stop c) / Fs c))"
  by (simp add: Fc_window_def divide_simps)

lemma Fc_kaiser_eq: "Fc_kaiser c = Fc_window c"
  by (simp add: Fc_kaiser_def Fc_window_def)

lemma Fc_window_task [simp]: "Fc_window task = Inr (1 / 2)"
  by (simp add: Fc_window_eq)

lemma Fc_window_halfband:
  "Fs c \<noteq> 0 \<Longrightarrow> 2 * (F_pass c + F_stop c) = Fs c \<Longrightarrow> Fc_window c = Inr (1 / 2)"
  by (simp add: Fc_window_eq field_simps)

lemma Fc_window_midpoint:
  assumes "wp c = Inr p" "ws c = Inr s"
  shows "Fc_window c = Inr ((p + s) / 2)"
  using assms by (auto simp: wp_eq_Inr_iff ws_eq_Inr_iff Fc_window_eq add_divide_distrib)

lemma h_window_eq:
  "h_window c = (if Fs c = 0 then Inl ZeroDivision
     else dc_normalize (windowed_sinc 47 ((F_pass c + F_stop c) / Fs c) Hann))"
  by (simp add: h_window_def Fc_window_eq M_window_def firwin_def)

lemma h_window_eq_Inr_iff [result_iffs]:
  "h_window c = Inr h \<longleftrightarrow>
     Fs c \<noteq> 0 \<and> firwin 47 ((F_pass c + F_stop c) / Fs c) Hann = Inr h"
  by (simp add: h_window_def Fc_window_eq M_window_def)

lemma h_window_firwin:
  "Fc_window c = Inr fc \<Longrightarrow> h_window c = firwin 47 fc Hann"
  by (simp add: h_window_def M_window_def)

lemma hann_window_ends:
  assumes "firwin M fc Hann = Inr h"
  shows "h ! 0 = 0" and "h ! (length h - Suc 0) = 0"
proof -
  from firwin_props [OF assms] have M: "3 \<le> M" "int (length h) = M" "symmetric h"
    by simp_all
  then have "0 < nat M" by simp
  from firwin_nth [OF assms this] show "h ! 0 = 0" by simp
  moreover from M have "0 < length h" by auto
  ultimately show "h ! (length h - Suc 0) = 0"
    using symmetric_nth [OF \<open>symmetric h\<close>, of 0] by simp
qed

lemma firwin_centre_dominates:
  assumes "firwin M fc win = Inr h" "n < length h" "0 \<le> fc"
    and "\<And>k. \<bar>window_coeff win (nat M) k\<bar> \<le> 1"
  shows "\<bar>h ! n\<bar> \<le> \<bar>h ! centre (length h)\<bar>"
proof -
  from firwin_props [OF assms(1)] have M: "odd M" "3 \<le> M" "int (length h) = M" by simp_all
  then have len: "length h = nat M" and odd: "odd (nat M)" "3 \<le> nat M"
    by (auto simp: even_nat_iff)
  define S where "S = sum_list (windowed_sinc (nat M) fc win)"
  from odd have c: "centre (nat M) < nat M" by (simp add: centre_less)
  have "\<bar>ideal_lowpass (nat M) fc n * window_coeff win (nat M) n\<bar> \<le> fc * 1"
    unfolding abs_mult ideal_lowpass_def
    using assms(3,4) abs_sinc_le_1 by (intro mult_mono) (simp_all add: mult_left_le)
  moreover have "ideal_lowpass (nat M) fc (centre (nat M))
      * window_coeff win (nat M) (centre (nat M)) = fc"
    using odd by (simp add: ideal_lowpass_centre window_coeff_centre)
  ultimately show ?thesis
    using assms(2,3) firwin_nth [OF assms(1)] c
    by (simp add: len S_def [symmetric] divide_right_mono)
qed

lemma length_estimate_9: "length_estimate 9 (1 / 5) = 2"
proof -
  have "\<lceil>(9 - 8) / (2.285 * (1 / 5) * pi)\<rceil> = (1::int)"
  proof (rule ceiling_eqI)
    show "of_int 1 - 1 < (9 - 8) / (2.285 * (1 / 5) * pi)"
      using pi_gt_zero by simp
    show "(9 - 8) / (2.285 * (1 / 5) * pi) \<le> of_int 1"
      using pi_bounds pi_gt_zero by (simp add: field_simps)
  qed
  then show ?thesis by (simp add: length_estimate_def)
qed

lemma h_kaiser_eq:
  "h_kaiser c =
     (if Fs c = 0 then Inl ZeroDivision
      else if F_stop c / (Fs c / 2) - F_pass c / (Fs c / 2) \<le> 0 then Inl InvalidTransitionWidth
      else firwin (length_estimate (Rs c) (F_stop c / (Fs c / 2) - F_pass c / (Fs c / 2)) + 1)
        ((F_pass c + F_stop c) / Fs c) (Kaiser (kaiser_beta (Rs c))))"
  by (simp add: h_kaiser_def M_kaiser_def beta_kaiser_def kaiser_pair_def kaiserord_def
      delta_w_eq Fc_kaiser_eq Fc_window_eq)

lemma h_kaiser_ok:
  assumes "delta_w c = Inr d" "0 < d" "Fc_window c = Inr fc"
  shows "h_kaiser c = firwin (length_estimate (Rs c) d + 1) fc (Kaiser (kaiser_beta (Rs c)))"
  using assms by (simp add: h_kaiser_def M_kaiser_ok beta_kaiser_ok Fc_kaiser_eq)

lemma h_kaiser_task: "h_kaiser task = Inl InvalidLength"
  by (simp add: h_kaiser_ok [OF delta_w_task _ Fc_window_task] length_estimate_task
      firwin_invalid_length)

lemma kaiser_rect_3:
  "windowed_sinc 3 (1 / 2) (Kaiser 0) = [1 / pi, 1 / 2, 1 / pi]"
proof -
  have "sinc (1 / 2) = 2 / pi" "sinc (- (1 / 2)) = 2 / pi"
    using sinc_half_odd [of 0] by (simp_all del: sinc_minus add: sinc_minus [of "1 / 2"])
  then show ?thesis
    by (simp add: windowed_sinc_def tabulate_def ideal_lowpass_def numeral_3_eq_3)
qed

lemma Fc_window_Rs_update [simp]: "Fc_window (c\<lparr>Rs := r\<rparr>) = Fc_window c"
  by (simp add: Fc_window_eq)

lemma h_kaiser_rect_3:
  assumes "delta_w c = Inr (1 / 5)" "Fc_window c = Inr (1 / 2)" "Rs c = 9"
  shows "h_kaiser c = Inr (map (\<lambda>x. x / (1 / 2 + 2 / pi)) [1 / pi, 1 / 2, 1 / pi])"
proof -
  from h_kaiser_ok [OF assms(1) _ assms(2)] assms(3)
  have "h_kaiser c = firwin 3 (1 / 2) (Kaiser 0)"
    by (simp add: length_estimate_9 kaiser_beta_def)
  moreover have "0 < 1 / 2 + 2 / pi"
    by (intro add_pos_pos divide_pos_pos) simp_all
  ultimately show ?thesis
    by (simp add: firwin_def dc_normalize_def kaiser_rect_3)
qed

lemma h_kaiser_low_attenuation:
  "h_kaiser (task\<lparr>Rs := 9\<rparr>) = Inr (map (\<lambda>x. x / (1 / 2 + 2 / pi)) [1 / pi, 1 / 2, 1 / pi])"
  by (rule h_kaiser_rect_3) simp_all

lemma h_window_task_ok: "\<exists>h. h_window task = Inr h"
  by (simp add: h_window_firwin [OF Fc_window_task] halfband_hann_firwin)

lemma h_window_success:
  assumes "h_window c = Inr h"
  shows "length h = 47" and "sum_list h = 1" and "symmetric h"
proof -
  from assms have f: "firwin 47 ((F_pass c + F_stop c) / Fs c) Hann = Inr h"
    by (simp add: h_window_eq_Inr_iff)
  from firwin_props [OF f] show "length h = 47" "sum_list h = 1" "symmetric h"
    by simp_all
qed

lemma h_kaiser_success:
  assumes "h_kaiser c = Inr h"
  shows "M_kaiser c = Inr (int (length h))" and "odd (length h)" and "3 \<le> length h"
    and "sum_list h = 1" and "symmetric h"
proof -
  from assms obtain m b fc where m: "M_kaiser c = Inr m"
    and f: "firwin m fc (Kaiser b) = Inr h"
    by (auto simp: h_kaiser_def rbind_eq_Inr_iff)
  from firwin_props [OF f] have *: "int (length h) = m" "odd m" "3 \<le> m"
    and **: "sum_list h = 1" "symmetric h" by simp_all
  from * m show "M_kaiser c = Inr (int (length h))" "odd (length h)" "3 \<le> length h"
    by auto
  from ** show "sum_list h = 1" "symmetric h" .
qed

section \<open>Properties of the Hann design\<close>

text \<open>
  C4. Whenever the script's Hann design succeeds, the sampling rate is not zero and the
  filter has 47 taps that sum to one (unit gain at frequency zero), is symmetric (linear
  phase), and its first and last taps are zero.
\<close>

theorem h_window_props:
  assumes "h_window c = Inr h"
  shows "Fs c \<noteq> 0 \<and> length h = 47 \<and> sum_list h = 1 \<and> symmetric h \<and> h ! 0 = 0 \<and> h ! 46 = 0"
proof -
  from assms have fs: "Fs c \<noteq> 0"
    and f: "firwin 47 ((F_pass c + F_stop c) / Fs c) Hann = Inr h"
    by (simp_all add: h_window_eq_Inr_iff)
  from h_window_success [OF assms] hann_window_ends [OF f] fs show ?thesis by simp
qed

theorem h_window_props_witness:
  "\<exists>h. h_window task = Inr h \<and> length h = 47 \<and> sum_list h = 1 \<and> rev h = h \<and> h ! 46 = 0"
proof -
  from h_window_task_ok obtain h where h: "h_window task = Inr h" ..
  from h_window_props [OF h] h show ?thesis by (auto simp: symmetric_def)
qed

text \<open>
  C3. When the cutoff of the Hann design lies at half the Nyquist frequency, as it does
  for the script's parameters, the design succeeds: the sum of the windowed taps is at
  least one half, so the normalisation does not divide by zero, and the centre tap of the
  result lies between zero and one.
\<close>

theorem h_window_halfband:
  assumes "Fs c \<noteq> 0" "2 * (F_pass c + F_stop c) = Fs c"
  shows "\<exists>h. h_window c = Inr h \<and> 0 < h ! 23 \<and> h ! 23 \<le> 1"
proof -
  define S where "S = sum_list (windowed_sinc 47 (1 / 2) Hann)"
  have S: "1 / 2 \<le> S" unfolding S_def by (rule halfband_hann_sum) simp_all
  have "centre 47 = 23" by (simp add: centre_def)
  with ideal_lowpass_centre [of 47 "1 / 2"] hann_centre [of 47]
  have "windowed_sinc 47 (1 / 2) Hann ! 23 = 1 / 2"
    by (simp add: nth_windowed_sinc)
  with S assms show ?thesis
    by (simp add: h_window_firwin [OF Fc_window_halfband] halfband_hann_firwin
        S_def [symmetric] field_simps)
qed

theorem h_window_halfband_witness:
  "\<exists>h. h_window task = Inr h \<and> 0 < h ! 23 \<and> h ! 23 \<le> 1"
  using h_window_halfband [of task] by simp

text \<open>
  C31. In a Hann design with a non-negative cutoff no tap exceeds the centre tap in
  magnitude.
\<close>

theorem h_window_centre_tap:
  assumes "h_window c = Inr h" "n < 47" "0 \<le> (F_pass c + F_stop c) / Fs c"
  shows "\<bar>h ! n\<bar> \<le> \<bar>h ! 23\<bar>"
proof -
  from assms(1) have f: "firwin 47 ((F_pass c + F_stop c) / Fs c) Hann = Inr h"
    by (simp add: h_window_eq_Inr_iff)
  from firwin_props(3) [OF f] have len: "length h = 47" by simp
  have "\<bar>window_coeff Hann (nat 47) k\<bar> \<le> 1" for k
    using hann_bounds [of 47 k] by simp
  from firwin_centre_dominates [OF f _ assms(3) this, of n] assms(2) len show ?thesis
    by (simp add: centre_def)
qed

theorem h_window_centre_tap_witness:
  "\<exists>h. h_window task = Inr h \<and> \<bar>h ! 10\<bar> \<le> \<bar>h ! 23\<bar>"
proof -
  from h_window_task_ok obtain h where h: "h_window task = Inr h" ..
  from h_window_centre_tap [OF h, of 10] h show ?thesis by simp
qed

section \<open>Properties of the Kaiser design\<close>

text \<open>
  C18. For the script's literal parameters the Kaiser design is requested with 18 taps,
  which the WindowedSincDesigner contract rejects: the design fails with \<open>InvalidLength\<close>,
  although the estimator contract's own forced-odd length 17 would be accepted.
\<close>

theorem h_kaiser_task_invalid_length:
  "M_kaiser task = Inr 18 \<and> h_kaiser task = Inl InvalidLength
     \<and> (\<exists>e. estimate (Rs task) (1 / 5) = Inr e \<and> length_est e = 17
          \<and> firwin (length_est e) (1 / 2) Hann \<noteq> Inl InvalidLength)"
  using M_kaiser_ok [OF delta_w_task]
  by (simp add: h_kaiser_task length_estimate_task estimate_ok force_odd_cases
      halfband_hann_firwin)

text \<open>
  C23. Whenever the script's Kaiser design succeeds, the filter has the script's Kaiser
  length, that length is odd and at least 3, the taps sum to one and the filter is
  symmetric.
\<close>

theorem h_kaiser_props:
  assumes "h_kaiser c = Inr h"
  shows "M_kaiser c = Inr (int (length h)) \<and> odd (length h) \<and> 3 \<le> length h
     \<and> sum_list h = 1 \<and> symmetric h"
  using h_kaiser_success [OF assms] by simp

theorem h_kaiser_props_witness:
  "\<exists>h. h_kaiser (task\<lparr>Rs := 9\<rparr>) = Inr h \<and> M_kaiser (task\<lparr>Rs := 9\<rparr>) = Inr 3
     \<and> length h = 3 \<and> sum_list h = 1 \<and> rev h = h"
  using h_kaiser_props [OF h_kaiser_low_attenuation]
  by (simp add: h_kaiser_low_attenuation symmetric_def)

text \<open>
  C22. Every tap of a successful Kaiser design is the ideal response times the ratio of
  two values of the Bessel series loop, divided by the sum of the windowed taps; both
  runs of the loop terminate.
\<close>

theorem h_kaiser_taps:
  assumes "h_kaiser c = Inr h" "n < length h"
  shows "\<exists>b fc s0 s. beta_kaiser c = Inr b \<and> Fc_kaiser c = Inr fc \<and> i0_loop b = Some s0
     \<and> i0_loop (b * sqrt (1 - (2 * real n / (real (length h) - 1) - 1)\<^sup>2)) = Some s
     \<and> h ! n = ideal_lowpass (length h) fc n * (total s / total s0)
         / sum_list (windowed_sinc (length h) fc (Kaiser b))"
proof -
  from assms obtain m b fc where b: "beta_kaiser c = Inr b" and fc: "Fc_kaiser c = Inr fc"
    and f: "firwin m fc (Kaiser b) = Inr h"
    by (auto simp: h_kaiser_def rbind_eq_Inr_iff)
  from firwin_props(3) [OF f] have len: "nat m = length h" by auto
  obtain s0 where s0: "i0_loop b = Some s0" using i0_loop_terminates by blast
  obtain s where s: "i0_loop (b * sqrt (1 - (2 * real n / (real (length h) - 1) - 1)\<^sup>2)) = Some s"
    using i0_loop_terminates by blast
  from firwin_nth [OF f, of n] assms(2) len
  have "h ! n = ideal_lowpass (length h) fc n * kaiser_window b (length h) n
      / sum_list (windowed_sinc (length h) fc (Kaiser b))" by simp
  with b fc s0 s show ?thesis
    by (simp add: kaiser_window_def bessel_i0_loop)
qed

theorem h_kaiser_taps_witness:
  "\<exists>h s. h_kaiser (task\<lparr>Rs := 9\<rparr>) = Inr h \<and> i0_loop 0 = Some s \<and> total s = 1
     \<and> h ! 1 = 1 / 2 / (1 / 2 + 2 / pi)"
proof -
  from h_kaiser_taps [OF h_kaiser_low_attenuation, of 1] obtain b s0
    where b: "beta_kaiser (task\<lparr>Rs := 9\<rparr>) = Inr b" and s0: "i0_loop b = Some s0"
    by auto
  from b have "b = 0" by (simp add: beta_kaiser_eq_Inr_iff kaiser_beta_def)
  with s0 bessel_i0_loop [of 0 s0] show ?thesis by (simp add: h_kaiser_low_attenuation)
qed

end
