(* ===== verification/Freq_Response.thy ===== *)
theory Freq_Response
  imports Windowed_Sinc
begin

text \<open>
  The FrequencyResponseEvaluator and the script's use of it (\<^verbatim>\<open>src/66.py\<close>, lines 74 to
  84). \<open>dtft\<close> is the transfer function of a tap sequence on the unit circle, \<open>freqz\<close>
  samples it on a uniform grid from zero up to, and excluding, the Nyquist frequency, and
  \<open>evaluate\<close> is the contract: grid, magnitude, decibels with the magnitude clamped to
  \<open>magnitude_floor\<close>. The script converts to decibels itself, without a clamp, so that a
  zero of the response becomes minus infinity; \<open>decibel\<close> is the type of its values,
  ordered with \<open>NegInf\<close> below every finite level. \<open>N_fft\<close>, \<open>freqz_of\<close>, \<open>H_window\<close>,
  \<open>H_kaiser\<close>, \<open>to_dB\<close>, \<open>H_window_dB\<close> and \<open>H_kaiser_dB\<close> are the script's assignments.
\<close>

section \<open>Decibel values\<close>

datatype decibel = NegInf | Db real

instantiation decibel :: linorder
begin

fun less_eq_decibel :: "decibel \<Rightarrow> decibel \<Rightarrow> bool" where
  "less_eq_decibel NegInf y = True"
| "less_eq_decibel (Db x) NegInf = False"
| "less_eq_decibel (Db x) (Db y) = (x \<le> y)"

definition less_decibel :: "decibel \<Rightarrow> decibel \<Rightarrow> bool" where
  "less_decibel a b \<longleftrightarrow> a \<le> b \<and> \<not> b \<le> a"

instance
proof
  fix a b c :: decibel
  show "a < b \<longleftrightarrow> a \<le> b \<and> \<not> b \<le> a" by (rule less_decibel_def)
  show "a \<le> a" by (cases a) simp_all
  show "a \<le> b \<Longrightarrow> b \<le> c \<Longrightarrow> a \<le> c" by (cases a; cases b; cases c) simp_all
  show "a \<le> b \<Longrightarrow> b \<le> a \<Longrightarrow> a = b" by (cases a; cases b) simp_all
  show "a \<le> b \<or> b \<le> a" by (cases a; cases b) auto
qed

end

section \<open>The evaluator contract\<close>

definition dtft :: "real list \<Rightarrow> real \<Rightarrow> complex" where
  dtft_def [designer_defs]:
  "dtft h omega = sum_list (tabulate (length h) (\<lambda>n. of_real (h ! n) * cis (- (omega * real n))))"

definition freqz :: "real list \<Rightarrow> nat \<Rightarrow> real \<Rightarrow> real list \<times> complex list" where
  freqz_def [designer_defs]:
  "freqz h N fs =
     (tabulate N (\<lambda>k. real k * fs / (2 * real N)),
      tabulate N (\<lambda>k. dtft h (pi * real k / real N)))"

definition magnitude_floor :: real where
  "magnitude_floor = 1 / 10 ^ 12"

definition magnitude_db :: "real \<Rightarrow> real" where
  magnitude_db_def [designer_defs]:
  "magnitude_db m = 20 * log 10 (max m magnitude_floor)"

definition evaluate :: "real list \<Rightarrow> real \<Rightarrow> int \<Rightarrow> (real \<times> real) list result" where
  evaluate_def [designer_defs]:
  "evaluate taps fs numPoints =
     (if numPoints < 2 then Inl InvalidGridSize
      else case freqz taps (nat numPoints) fs of
        (w, H) \<Rightarrow> Inr (zip w (map (\<lambda>z. magnitude_db (cmod z)) H)))"

section \<open>The script's responses\<close>

definition N_fft :: int where
  N_fft_def [script_defs]: "N_fft = 2048"

definition freqz_of :: "config \<Rightarrow> real list result \<Rightarrow> (real list \<times> complex list) result" where
  freqz_of_def [script_defs]:
  "freqz_of c design = rbind design (\<lambda>h. Inr (freqz h (nat N_fft) (Fs c)))"

definition w_window :: "config \<Rightarrow> real list result" where
  w_window_def [script_defs]:
  "w_window c = rbind (freqz_of c (h_window c)) (\<lambda>(w, H). Inr w)"

definition w_kaiser :: "config \<Rightarrow> real list result" where
  w_kaiser_def [script_defs]:
  "w_kaiser c = rbind (freqz_of c (h_kaiser c)) (\<lambda>(w, H). Inr w)"

definition H_window :: "config \<Rightarrow> complex list result" where
  H_window_def [script_defs]:
  "H_window c = rbind (freqz_of c (h_window c)) (\<lambda>(w, H). Inr H)"

definition H_kaiser :: "config \<Rightarrow> complex list result" where
  H_kaiser_def [script_defs]:
  "H_kaiser c = rbind (freqz_of c (h_kaiser c)) (\<lambda>(w, H). Inr H)"

definition to_dB :: "complex list \<Rightarrow> decibel list" where
  to_dB_def [script_defs]:
  "to_dB H = map (\<lambda>z. if cmod z = 0 then NegInf else Db (20 * log 10 (cmod z))) H"

definition H_window_dB :: "config \<Rightarrow> decibel list result" where
  H_window_dB_def [script_defs]:
  "H_window_dB c = rbind (H_window c) (\<lambda>H. Inr (to_dB H))"

definition H_kaiser_dB :: "config \<Rightarrow> decibel list result" where
  H_kaiser_dB_def [script_defs]:
  "H_kaiser_dB c = rbind (H_kaiser c) (\<lambda>H. Inr (to_dB H))"

section \<open>Decibel order\<close>

lemma NegInf_least [simp]: "NegInf \<le> d"
  by simp

lemma Db_le_iff [simp]: "Db x \<le> Db y \<longleftrightarrow> x \<le> y"
  by simp

lemma Db_less_iff [simp]: "Db x < Db y \<longleftrightarrow> x < y"
  by (auto simp: less_decibel_def)

lemma NegInf_less_Db [simp]: "NegInf < Db x"
  by (simp add: less_decibel_def)

lemma max_Db [simp]: "max (Db x) (Db y) = Db (max x y)"
  by (simp add: max_def)

lemma max_NegInf [simp]: "max d NegInf = d" "max NegInf d = d"
  by (simp_all add: max_def antisym)

section \<open>The transfer function\<close>

lemma dtft_sum: "dtft h omega = (\<Sum>n<length h. of_real (h ! n) * cis (- (omega * real n)))"
  by (simp add: dtft_def sum_list_tabulate)

lemma sum_list_nth_lessThan: "sum_list h = (\<Sum>n<length h. h ! n)"
  by (simp add: sum_list_sum_nth atLeast0LessThan)

lemma dtft_0 [simp]: "dtft h 0 = of_real (sum_list h)"
  by (simp add: dtft_sum sum_list_nth_lessThan)

lemma dtft_Nil [simp]: "dtft [] omega = 0"
  by (simp add: dtft_def)

lemma dtft_unit [simp]: "dtft [1] omega = 1"
  by (simp add: dtft_sum)

lemma cmod_dtft_le: "cmod (dtft h omega) \<le> sum_list (map abs h)"
proof -
  have "cmod (dtft h omega) \<le> (\<Sum>n<length h. cmod (of_real (h ! n) * cis (- (omega * real n))))"
    unfolding dtft_sum by (rule norm_sum)
  also have "\<dots> = (\<Sum>n<length h. \<bar>h ! n\<bar>)"
    by (simp add: norm_mult)
  also have "\<dots> = sum_list (map abs h)"
    by (simp add: sum_list_nth_lessThan)
  finally show ?thesis .
qed

lemma dtft_scale: "dtft (map (\<lambda>x. x / s) h) omega = dtft h omega / of_real s"
  by (simp add: dtft_sum sum_divide_distrib)

lemma dtft_periodic: "dtft h (omega + 2 * pi) = dtft h omega"
proof -
  have "cis (- ((omega + 2 * pi) * real n)) = cis (- (omega * real n))" for n
  proof -
    have "cis (- ((omega + 2 * pi) * real n)) = cis (- (omega * real n)) * cis (- (2 * pi * real n))"
      by (simp add: cis_mult algebra_simps)
    also have "cis (- (2 * pi * real n)) = 1"
    proof -
      have "cis (real n * (2 * pi)) = 1" using DeMoivre [of "2 * pi" n] by simp
      then have "cnj (cis (real n * (2 * pi))) = 1" by simp
      then show ?thesis by (simp add: cis_cnj mult.commute)
    qed
    finally show ?thesis by simp
  qed
  then show ?thesis by (simp add: dtft_sum)
qed

section \<open>Linear phase\<close>

text \<open>
  The zero-phase response \<open>amplitude\<close> is the real function that a symmetric tap sequence
  realises up to the delay of its centre: the transfer function is the amplitude times a
  pure delay of \<open>(M - 1) / 2\<close> samples.
\<close>

definition amplitude :: "real list \<Rightarrow> real \<Rightarrow> real" where
  "amplitude h omega =
     (\<Sum>n<length h. h ! n * cos (omega * (real n - (real (length h) - 1) / 2)))"

lemma sum_antisymmetric_0:
  fixes g :: "nat \<Rightarrow> real"
  assumes "\<And>n. n < M \<Longrightarrow> g (M - Suc n) = - g n"
  shows "(\<Sum>n<M. g n) = 0"
proof -
  have "(\<Sum>n<M. g n) = (\<Sum>n<M. g (M - Suc n))"
    by (rule sum.nat_diff_reindex [symmetric])
  also have "\<dots> = (\<Sum>n<M. - g n)"
    by (rule sum.cong [OF refl]) (simp add: assms)
  finally show ?thesis by (simp add: sum_negf)
qed

lemma symmetric_quadrature_0:
  assumes "symmetric h"
  shows "(\<Sum>n<length h. h ! n * sin (omega * (real n - (real (length h) - 1) / 2))) = 0"
proof (rule sum_antisymmetric_0)
  fix n
  assume n: "n < length h"
  then have "real (length h - Suc n) - (real (length h) - 1) / 2
      = - (real n - (real (length h) - 1) / 2)"
    by (simp add: of_nat_diff field_simps)
  then have "sin (omega * (real (length h - Suc n) - (real (length h) - 1) / 2))
      = - sin (omega * (real n - (real (length h) - 1) / 2))"
    by (simp only: mult_minus_right sin_minus)
  with symmetric_nth [OF assms n]
  show "h ! (length h - Suc n) * sin (omega * (real (length h - Suc n) - (real (length h) - 1) / 2))
      = - (h ! n * sin (omega * (real n - (real (length h) - 1) / 2)))"
    by simp
qed

lemma dtft_linear_phase:
  assumes "symmetric h"
  shows "dtft h omega = of_real (amplitude h omega) * cis (- (omega * ((real (length h) - 1) / 2)))"
proof -
  define c where "c = (real (length h) - 1) / 2"
  have "of_real (h ! n) * cis (- (omega * real n)) * cis (omega * c)
      = of_real (h ! n) * cis (- (omega * (real n - c)))" for n
    by (simp add: mult.assoc cis_mult right_diff_distrib)
  then have "dtft h omega * cis (omega * c)
      = (\<Sum>n<length h. of_real (h ! n) * cis (- (omega * (real n - c))))"
    by (simp only: dtft_sum sum_distrib_right)
  also have "\<dots> = Complex (\<Sum>n<length h. h ! n * cos (omega * (real n - c)))
      (- (\<Sum>n<length h. h ! n * sin (omega * (real n - c))))"
    by (simp add: complex_eq_iff Re_sum Im_sum sum_negf)
  also have "\<dots> = of_real (amplitude h omega)"
    using symmetric_quadrature_0 [OF assms, of omega]
    by (simp add: amplitude_def c_def complex_eq_iff)
  finally have "dtft h omega * cis (omega * c) * cis (- (omega * c))
      = of_real (amplitude h omega) * cis (- (omega * c))" by simp
  then show ?thesis by (simp add: mult.assoc cis_mult c_def)
qed

lemma cmod_dtft_symmetric: "symmetric h \<Longrightarrow> cmod (dtft h omega) = \<bar>amplitude h omega\<bar>"
  by (simp add: dtft_linear_phase norm_mult)

section \<open>The grid and the contract\<close>

lemma length_freqz [simp]:
  "length (fst (freqz h N fs)) = N" "length (snd (freqz h N fs)) = N"
  by (simp_all add: freqz_def)

lemma nth_freqz:
  assumes "k < N"
  shows "fst (freqz h N fs) ! k = real k * fs / (2 * real N)"
    and "snd (freqz h N fs) ! k = dtft h (pi * real k / real N)"
  using assms by (simp_all add: freqz_def)

lemma freqz_grid_increasing:
  assumes "0 < fs"
  shows "sorted_wrt (<) (fst (freqz h N fs))"
proof -
  have "real i * fs / (2 * real N) < real j * fs / (2 * real N)" if "i < j" "j < N" for i j
    using that assms by (intro divide_strict_right_mono mult_strict_right_mono) simp_all
  then show ?thesis by (simp add: sorted_wrt_iff_nth_less nth_freqz)
qed

lemma freqz_grid_range:
  assumes "0 < fs" "f \<in> set (fst (freqz h N fs))"
  shows "0 \<le> f" and "f < fs / 2"
proof -
  from assms(2) obtain k where k: "k < N" and f: "f = real k * fs / (2 * real N)"
    by (auto simp: freqz_def tabulate_def)
  from assms(1) f show "0 \<le> f" by simp
  from k assms(1) have "real k * fs / (2 * real N) < real N * fs / (2 * real N)"
    by (intro divide_strict_right_mono mult_strict_right_mono) simp_all
  also from k have "real N * fs / (2 * real N) = fs / 2" by simp
  finally show "f < fs / 2" by (simp only: f)
qed

lemma magnitude_floor_pos [simp]: "0 < magnitude_floor"
  by (simp add: magnitude_floor_def)

lemma magnitude_floor_db: "20 * log 10 magnitude_floor = - 240"
proof -
  have "magnitude_floor = 10 powr (- 12)"
    by (simp add: magnitude_floor_def powr_minus_divide powr_realpow [symmetric]
        del: powr_numeral)
  then have "log 10 magnitude_floor = log 10 (10 powr (- 12))" by (simp only:)
  also have "\<dots> = - 12" by (rule log_powr_cancel) simp_all
  finally show ?thesis by simp
qed

lemma magnitude_db_clamped: "m \<le> magnitude_floor \<Longrightarrow> magnitude_db m = - 240"
  by (simp add: magnitude_db_def max_def magnitude_floor_db)

lemma magnitude_db_unclamped: "magnitude_floor \<le> m \<Longrightarrow> magnitude_db m = 20 * log 10 m"
  by (simp add: magnitude_db_def max_def)

lemma magnitude_db_ge: "- 240 \<le> magnitude_db m"
proof (cases "m \<le> magnitude_floor")
  case True
  then show ?thesis by (simp add: magnitude_db_clamped)
next
  case False
  then have "log 10 magnitude_floor \<le> log 10 m"
    using less_trans [OF magnitude_floor_pos, of m] by simp
  with False magnitude_floor_db show ?thesis by (simp add: magnitude_db_unclamped)
qed

lemma magnitude_db_max:
  assumes "0 \<le> m"
  shows "Db (magnitude_db m) = max (Db (- 240)) (if m = 0 then NegInf else Db (20 * log 10 m))"
proof (cases "m \<le> magnitude_floor")
  case True
  with assms have "m \<noteq> 0 \<Longrightarrow> log 10 m \<le> log 10 magnitude_floor" by simp
  with True magnitude_floor_db show ?thesis by (auto simp: magnitude_db_clamped max_def)
next
  case False
  then have "0 < m" "log 10 magnitude_floor \<le> log 10 m"
    using less_trans [OF magnitude_floor_pos, of m] by simp_all
  with False magnitude_floor_db show ?thesis by (auto simp: magnitude_db_unclamped max_def)
qed

lemma evaluate_ok:
  "2 \<le> N \<Longrightarrow> evaluate h fs N = Inr (zip (fst (freqz h (nat N) fs))
     (map (\<lambda>z. magnitude_db (cmod z)) (snd (freqz h (nat N) fs))))"
  by (simp add: evaluate_def split_beta)

lemma evaluate_invalid: "N < 2 \<Longrightarrow> evaluate h fs N = Inl InvalidGridSize"
  by (simp add: evaluate_def)

lemma to_dB_nth:
  "k < length H \<Longrightarrow> to_dB H ! k = (if cmod (H ! k) = 0 then NegInf else Db (20 * log 10 (cmod (H ! k))))"
  by (simp add: to_dB_def)

lemma length_to_dB [simp]: "length (to_dB H) = length H"
  by (simp add: to_dB_def)

section \<open>Runs of the script's evaluation\<close>

lemma freqz_of_ok [simp]: "freqz_of c (Inr h) = Inr (freqz h 2048 (Fs c))"
  by (simp add: freqz_of_def N_fft_def)

lemma freqz_of_error [simp]: "freqz_of c (Inl e) = Inl e"
  by (simp add: freqz_of_def)

lemma window_response_ok:
  assumes "h_window c = Inr h"
  shows "w_window c = Inr (fst (freqz h 2048 (Fs c)))"
    and "H_window c = Inr (snd (freqz h 2048 (Fs c)))"
    and "H_window_dB c = Inr (to_dB (snd (freqz h 2048 (Fs c))))"
  using assms by (simp_all add: w_window_def H_window_dB_def H_window_def split_beta)

lemma kaiser_response_ok:
  assumes "h_kaiser c = Inr h"
  shows "H_kaiser c = Inr (snd (freqz h 2048 (Fs c)))"
    and "H_kaiser_dB c = Inr (to_dB (snd (freqz h 2048 (Fs c))))"
    and "w_kaiser c = Inr (fst (freqz h 2048 (Fs c)))"
  using assms by (simp_all add: H_kaiser_dB_def H_kaiser_def w_kaiser_def split_beta)

lemma freqz_grid_same: "fst (freqz h N fs) = fst (freqz h' N fs)"
  by (simp add: freqz_def)

lemma response_error:
  "h_window c = Inl e \<Longrightarrow> H_window_dB c = Inl e"
  "h_kaiser c = Inl e \<Longrightarrow> H_kaiser_dB c = Inl e"
  by (simp_all add: H_window_dB_def H_window_def H_kaiser_dB_def H_kaiser_def)

section \<open>Properties\<close>

text \<open>
  C8. Whenever the Hann design succeeds, its sampled response has 2048 points, the
  response at frequency zero is exactly one, and the script's decibel curve starts at
  0 dB.
\<close>

theorem H_window_dc_gain:
  assumes "h_window c = Inr h"
  shows "\<exists>H D. H_window c = Inr H \<and> H_window_dB c = Inr D \<and> length H = 2048
     \<and> length D = 2048 \<and> H ! 0 = 1 \<and> D ! 0 = Db 0"
proof -
  from assms have "sum_list h = 1" by (rule h_window_success)
  then show ?thesis
    by (simp add: window_response_ok [OF assms] to_dB_nth nth_freqz)
qed

theorem H_window_dc_gain_witness:
  "\<exists>D. H_window_dB task = Inr D \<and> length D = 2048 \<and> D ! 0 = Db 0"
proof -
  from h_window_task_ok obtain h where h: "h_window task = Inr h" ..
  from H_window_dc_gain [OF h] show ?thesis by auto
qed

text \<open>
  C30. The frequency grid of the Hann response, for a positive sampling rate: 2048
  strictly increasing frequencies that start at zero, advance in steps of \<open>Fs / 4096\<close>
  and stay below the Nyquist frequency \<open>Fs / 2\<close>.
\<close>

theorem w_window_grid:
  assumes "h_window c = Inr h" "0 < Fs c" "k < 2048"
  shows "\<exists>w. w_window c = Inr w \<and> length w = 2048 \<and> sorted_wrt (<) w
     \<and> w ! k = real k * Fs c / 4096 \<and> 0 \<le> w ! k \<and> w ! k < Fs c / 2"
proof -
  let ?w = "fst (freqz h 2048 (Fs c))"
  from assms(3) have "?w ! k \<in> set ?w" by simp
  from freqz_grid_range [OF assms(2) this] assms show ?thesis
    by (simp add: window_response_ok freqz_grid_increasing nth_freqz)
qed

theorem w_window_grid_witness:
  "\<exists>w. w_window task = Inr w \<and> length w = 2048 \<and> w ! 1024 = 1250"
proof -
  from h_window_task_ok obtain h where h: "h_window task = Inr h" ..
  from w_window_grid [OF h, of 1024] show ?thesis by auto
qed

text \<open>
  No point of the Hann design's decibel curve lies above the level of the sum of the
  magnitudes of the taps.
\<close>

theorem H_window_dB_bounded:
  assumes "h_window c = Inr h" "H_window_dB c = Inr D" "k < 2048"
  shows "D ! k \<le> Db (20 * log 10 (sum_list (map abs h)))"
proof -
  from assms(1) have "sum_list h = 1" by (rule h_window_success)
  with sum_list_abs_le [of h] have pos: "1 \<le> sum_list (map abs h)" by simp
  let ?z = "dtft h (pi * real k / 2048)"
  have "log 10 (cmod ?z) \<le> log 10 (sum_list (map abs h))" if "cmod ?z \<noteq> 0"
    using that pos cmod_dtft_le [of h "pi * real k / 2048"] by simp
  with assms show ?thesis
    by (auto simp: window_response_ok to_dB_nth nth_freqz)
qed

theorem H_window_dB_bounded_witness:
  "\<exists>h D. h_window task = Inr h \<and> H_window_dB task = Inr D
     \<and> D ! 100 \<le> Db (20 * log 10 (sum_list (map abs h)))"
proof -
  from h_window_task_ok obtain h where h: "h_window task = Inr h" ..
  from H_window_dB_bounded [OF h window_response_ok(3) [OF h], of 100] h show ?thesis
    by (simp add: window_response_ok)
qed

text \<open>
  C10. The script's conversion to decibels against the evaluator contract, on the Hann
  design: the contract returns a curve of the same length on the same grid, and each of
  its levels is the script's level clamped from below at -240 dB; the two differ exactly
  where the magnitude is under the floor.
\<close>

theorem to_dB_versus_contract:
  assumes "h_window c = Inr h" "k < 2048"
  shows "\<exists>w D curve. w_window c = Inr w \<and> H_window_dB c = Inr D
     \<and> evaluate h (Fs c) N_fft = Inr curve \<and> map fst curve = w \<and> length curve = length D
     \<and> Db (snd (curve ! k)) = max (Db (- 240)) (D ! k)"
proof -
  let ?H = "snd (freqz h 2048 (Fs c))"
  have "Db (magnitude_db (cmod (?H ! k))) = max (Db (- 240)) (to_dB ?H ! k)"
    using assms(2) by (simp add: magnitude_db_max to_dB_nth)
  with assms show ?thesis
    by (simp add: window_response_ok evaluate_ok N_fft_def)
qed

theorem to_dB_versus_contract_witness:
  "\<exists>h D curve. h_window task = Inr h \<and> H_window_dB task = Inr D
     \<and> evaluate h 5000 N_fft = Inr curve \<and> snd (curve ! 0) = 0 \<and> D ! 0 = Db 0"
proof -
  from h_window_task_ok obtain h where h: "h_window task = Inr h" ..
  then have "sum_list h = 1" by (rule h_window_success)
  with to_dB_versus_contract [OF h, of 0] h show ?thesis
    by (auto simp: window_response_ok to_dB_nth nth_freqz)
qed

text \<open>
  C20. The Hann design has exactly linear phase: every sample of its response is the real
  zero-phase amplitude of the taps times a pure delay of 23 samples, and its magnitude
  is the absolute value of that amplitude.
\<close>

theorem H_window_linear_phase:
  assumes "h_window c = Inr h" "H_window c = Inr H" "k < 2048"
  shows "H ! k = of_real (amplitude h (pi * real k / 2048)) * cis (- (pi * real k / 2048 * 23))
     \<and> cmod (H ! k) = \<bar>amplitude h (pi * real k / 2048)\<bar>"
proof -
  from h_window_success [OF assms(1)] have "length h = 47" "symmetric h" by simp_all
  moreover from assms have "H = snd (freqz h 2048 (Fs c))"
    by (simp add: window_response_ok)
  ultimately show ?thesis
    using dtft_linear_phase [of h "pi * real k / 2048"]
      cmod_dtft_symmetric [of h "pi * real k / 2048"] assms(3)
    by (simp add: nth_freqz)
qed

theorem H_window_linear_phase_witness:
  "\<exists>h H. h_window task = Inr h \<and> H_window task = Inr H
     \<and> H ! 1024 = of_real (amplitude h (pi / 2)) * cis (- (pi / 2 * 23))"
proof -
  from h_window_task_ok obtain h where h: "h_window task = Inr h" ..
  from H_window_linear_phase [OF h window_response_ok(2) [OF h], of 1024] h show ?thesis
    by (simp add: window_response_ok)
qed

text \<open>
  Evaluation adds no failure of its own: the decibel curve of a design is an error
  exactly when the design is, with the same error. For the script's parameters the Kaiser
  curve is therefore the \<open>InvalidLength\<close> of its design.
\<close>

theorem evaluation_errors:
  "(H_window_dB c = Inl e \<longleftrightarrow> h_window c = Inl e)
     \<and> (H_kaiser_dB c = Inl e \<longleftrightarrow> h_kaiser c = Inl e)
     \<and> H_kaiser_dB task = Inl InvalidLength"
proof -
  have "H_window_dB c = Inl e \<longleftrightarrow> h_window c = Inl e"
    by (cases "h_window c") (simp_all add: response_error window_response_ok)
  moreover have "H_kaiser_dB c = Inl e \<longleftrightarrow> h_kaiser c = Inl e"
    by (cases "h_kaiser c") (simp_all add: response_error kaiser_response_ok)
  ultimately show ?thesis by (simp add: response_error h_kaiser_task)
qed

end
