(* ===== verification/Band_Designs.thy ===== *)
theory Band_Designs
  imports Freq_Response
begin

text \<open>
  The EquirippleDesigner and the FrequencySamplingDesigner as far as the script determines
  their behaviour (\<^verbatim>\<open>src/66.py\<close>, lines 47 to 70): the arguments the script prepares and
  the input checks of the two contracts; and the responses of the two designs (lines 77,
  78, 83 and 84). The synthesis itself (the exchange iteration and
  the frequency-sampling transform) is a parameter of the model: \<open>remez\<close> and \<open>firwin2\<close>
  take the synthesis as a function and call it once the inputs have passed the check, so
  that every lemma here holds for whatever the synthesis computes; the theory
  \<open>Freq_Sampling\<close> gives the synthesis of the frequency-sampling contract. An equiripple
  synthesis returns its taps together with the convergence flag of the contract, which
  the script drops. \<open>unit_rate_task\<close> is a specification with sampling rate 4, the rate
  at which the equiripple call of the script passes its input check; the instances of
  the lemmas on successful runs use it.
\<close>

section \<open>The input contracts\<close>

type_synonym exchange = "nat \<Rightarrow> real list \<Rightarrow> real list \<Rightarrow> real \<Rightarrow> real list \<times> bool"

type_synonym sampling = "nat \<Rightarrow> real list \<Rightarrow> real list \<Rightarrow> real \<Rightarrow> real list"

definition valid_bands :: "real \<Rightarrow> real list \<Rightarrow> real list \<Rightarrow> bool" where
  valid_bands_def [designer_defs]:
  "valid_bands nyquist bands gains \<longleftrightarrow>
     bands \<noteq> [] \<and> length bands = 2 * length gains \<and> sorted bands
     \<and> hd bands = 0 \<and> last bands = nyquist"

definition remez :: "exchange \<Rightarrow> int \<Rightarrow> real list \<Rightarrow> real list \<Rightarrow> real \<Rightarrow> (real list \<times> bool) result"
  where remez_def [designer_defs]:
  "remez ex numtaps bands gains fs =
     (if valid_bands (fs / 2) bands gains then Inr (ex (nat numtaps) bands gains (fs / 2))
      else Inl InvalidBandSpec)"

definition valid_breakpoints :: "real list \<Rightarrow> real list \<Rightarrow> bool" where
  valid_breakpoints_def [designer_defs]:
  "valid_breakpoints freqs gains \<longleftrightarrow> sorted_wrt (<) freqs \<and> length gains = length freqs"

definition firwin2 :: "sampling \<Rightarrow> int \<Rightarrow> real list \<Rightarrow> real list \<Rightarrow> real \<Rightarrow> real list result"
  where firwin2_def [designer_defs]:
  "firwin2 syn numtaps freqs gains fs =
     (if valid_breakpoints freqs gains then Inr (syn (nat numtaps) freqs gains (fs / 2))
      else Inl InvalidBreakpoints)"

section \<open>The script's calls\<close>

definition M_remez :: "config \<Rightarrow> int result" where
  M_remez_def [script_defs]: "M_remez c = M_kaiser c"

definition bands_remez :: "config \<Rightarrow> real list result" where
  bands_remez_def [script_defs]:
  "bands_remez c = rbind (wp c) (\<lambda>p. rbind (ws c) (\<lambda>s. Inr [0, p, s, 1]))"

definition desired_amps_remez :: "real list" where
  desired_amps_remez_def [script_defs]: "desired_amps_remez = [1, 0]"

definition h_remez :: "exchange \<Rightarrow> config \<Rightarrow> real list result" where
  h_remez_def [script_defs]:
  "h_remez ex c =
     rbind (M_remez c) (\<lambda>m. rbind (bands_remez c) (\<lambda>b.
       rbind (remez ex m b desired_amps_remez (Fs c / 2)) (\<lambda>(h, converged). Inr h)))"

definition M_firls :: "config \<Rightarrow> int result" where
  M_firls_def [script_defs]: "M_firls c = M_kaiser c"

definition bands_firls :: "config \<Rightarrow> real list" where
  bands_firls_def [script_defs]: "bands_firls c = [0, F_pass c, F_stop c, Fs c / 2]"

definition desired_amps_firls :: "real list" where
  desired_amps_firls_def [script_defs]: "desired_amps_firls = [1, 1, 0, 0]"

definition h_firls :: "sampling \<Rightarrow> config \<Rightarrow> real list result" where
  h_firls_def [script_defs]:
  "h_firls syn c =
     rbind (M_firls c) (\<lambda>m. firwin2 syn m (bands_firls c) desired_amps_firls (Fs c))"

definition H_remez :: "exchange \<Rightarrow> config \<Rightarrow> complex list result" where
  H_remez_def [script_defs]:
  "H_remez ex c = rbind (freqz_of c (h_remez ex c)) (\<lambda>(w, H). Inr H)"

definition H_firls :: "sampling \<Rightarrow> config \<Rightarrow> complex list result" where
  H_firls_def [script_defs]:
  "H_firls syn c = rbind (freqz_of c (h_firls syn c)) (\<lambda>(w, H). Inr H)"

definition w_remez :: "exchange \<Rightarrow> config \<Rightarrow> real list result" where
  w_remez_def [script_defs]:
  "w_remez ex c = rbind (freqz_of c (h_remez ex c)) (\<lambda>(w, H). Inr w)"

definition w_firls :: "sampling \<Rightarrow> config \<Rightarrow> real list result" where
  w_firls_def [script_defs]:
  "w_firls syn c = rbind (freqz_of c (h_firls syn c)) (\<lambda>(w, H). Inr w)"

definition H_remez_dB :: "exchange \<Rightarrow> config \<Rightarrow> decibel list result" where
  H_remez_dB_def [script_defs]:
  "H_remez_dB ex c = rbind (H_remez ex c) (\<lambda>H. Inr (to_dB H))"

definition H_firls_dB :: "sampling \<Rightarrow> config \<Rightarrow> decibel list result" where
  H_firls_dB_def [script_defs]:
  "H_firls_dB syn c = rbind (H_firls syn c) (\<lambda>H. Inr (to_dB H))"

definition unit_rate_task :: config where
  "unit_rate_task = \<lparr>Fs = 4, F_pass = 4 / 5, F_stop = 6 / 5, Rp = 1, Rs = 9\<rparr>"

section \<open>The band edges of the equiripple call\<close>

lemma unit_rate_fields [simp]:
  "Fs unit_rate_task = 4" "F_pass unit_rate_task = 4 / 5" "F_stop unit_rate_task = 6 / 5"
  "Rp unit_rate_task = 1" "Rs unit_rate_task = 9"
  by (simp_all add: unit_rate_task_def)

lemma unit_rate_valid: "valid_spec unit_rate_task"
  by (simp add: valid_spec_def)

lemma unit_rate_M_kaiser: "M_kaiser unit_rate_task = Inr 3"
proof -
  have "delta_w unit_rate_task = Inr (1 / 5)" by (simp add: delta_w_eq)
  from M_kaiser_ok [OF this] show ?thesis by (simp add: length_estimate_9)
qed

lemma bands_remez_eq:
  "bands_remez c = (if Fs c = 0 then Inl ZeroDivision
     else Inr [0, F_pass c / (Fs c / 2), F_stop c / (Fs c / 2), 1])"
  by (simp add: bands_remez_def wp_def ws_def)

lemma valid_bands_remez_iff:
  "valid_bands nyquist [0, p, s, 1] desired_amps_remez
     \<longleftrightarrow> 0 \<le> p \<and> p \<le> s \<and> s \<le> 1 \<and> nyquist = 1"
  by (auto simp: valid_bands_def desired_amps_remez_def)

lemma remez_script_call:
  "remez ex m [0, p, s, 1] desired_amps_remez fs =
     (if 0 \<le> p \<and> p \<le> s \<and> s \<le> 1 \<and> fs = 2
      then Inr (ex (nat m) [0, p, s, 1] desired_amps_remez 1) else Inl InvalidBandSpec)"
  by (auto simp: remez_def valid_bands_remez_iff)

lemma M_kaiser_valid:
  assumes "valid_spec c"
  shows "\<exists>m. M_kaiser c = Inr m"
proof -
  from valid_spec_delta_w [OF assms] obtain d where "delta_w c = Inr d" "0 < d" by blast
  then show ?thesis by (simp add: M_kaiser_ok)
qed

lemma h_remez_eq:
  assumes "M_kaiser c = Inr m"
  shows "h_remez ex c =
     (if 0 \<le> F_pass c / (Fs c / 2) \<and> F_pass c / (Fs c / 2) \<le> F_stop c / (Fs c / 2)
         \<and> F_stop c / (Fs c / 2) \<le> 1 \<and> Fs c = 4
      then Inr (fst (ex (nat m) [0, F_pass c / (Fs c / 2), F_stop c / (Fs c / 2), 1]
        desired_amps_remez 1))
      else Inl InvalidBandSpec)"
proof (cases "Fs c = 4")
  case True
  with assms show ?thesis
    by (simp add: h_remez_def M_remez_def bands_remez_eq remez_script_call split_beta)
next
  case False
  from assms have "Fs c \<noteq> 0" by (auto simp: M_kaiser_eq_Inr_iff delta_w_eq split: if_splits)
  with False assms show ?thesis
    by (simp add: h_remez_def M_remez_def bands_remez_eq remez_script_call)
qed

section \<open>The breakpoints of the frequency-sampling call\<close>

lemma valid_breakpoints_firls_iff:
  "valid_breakpoints (bands_firls c) desired_amps_firls \<longleftrightarrow> valid_spec c"
  by (auto simp: valid_breakpoints_def bands_firls_def desired_amps_firls_def valid_spec_def)

lemma h_firls_eq:
  assumes "M_kaiser c = Inr m"
  shows "h_firls syn c =
     (if valid_spec c then Inr (syn (nat m) (bands_firls c) desired_amps_firls (Fs c / 2))
      else Inl InvalidBreakpoints)"
  using assms by (simp add: h_firls_def M_firls_def firwin2_def valid_breakpoints_firls_iff)

lemma bands_firls_span:
  "hd (bands_firls c) = 0" "last (bands_firls c) = Fs c / 2" "length (bands_firls c) = 4"
  by (simp_all add: bands_firls_def)

section \<open>The responses of the two designs\<close>

lemma remez_response_ok:
  assumes "h_remez ex c = Inr h"
  shows "H_remez ex c = Inr (snd (freqz h 2048 (Fs c)))"
    and "H_remez_dB ex c = Inr (to_dB (snd (freqz h 2048 (Fs c))))"
    and "w_remez ex c = Inr (fst (freqz h 2048 (Fs c)))"
  using assms by (simp_all add: H_remez_dB_def H_remez_def w_remez_def split_beta)

lemma firls_response_ok:
  assumes "h_firls syn c = Inr h"
  shows "w_firls syn c = Inr (fst (freqz h 2048 (Fs c)))"
    and "H_firls syn c = Inr (snd (freqz h 2048 (Fs c)))"
    and "H_firls_dB syn c = Inr (to_dB (snd (freqz h 2048 (Fs c))))"
  using assms by (simp_all add: w_firls_def H_firls_dB_def H_firls_def split_beta)

section \<open>Properties\<close>

text \<open>
  C5. The equiripple call passes band edges normalised to a Nyquist frequency of one
  together with the sampling rate \<open>Fs / 2\<close>, whose Nyquist frequency is \<open>Fs / 4\<close>. For every
  valid specification the edges are valid bands over \<open>[0, 1]\<close>, but unless \<open>Fs = 4\<close> they
  do not reach the Nyquist frequency of the call, and the design fails with
  \<open>InvalidBandSpec\<close> whatever the exchange iteration computes.
\<close>

theorem h_remez_band_mismatch:
  assumes "valid_spec c" "Fs c \<noteq> 4"
  shows "h_remez ex c = Inl InvalidBandSpec
     \<and> (\<exists>b. bands_remez c = Inr b \<and> valid_bands 1 b desired_amps_remez
          \<and> \<not> valid_bands (Fs c / 2 / 2) b desired_amps_remez)"
proof -
  from M_kaiser_valid [OF assms(1)] obtain m where m: "M_kaiser c = Inr m" ..
  from normalized_band_edges_aux [OF assms(1)] obtain p s
    where ps: "wp c = Inr p" "ws c = Inr s" "0 < p" "p < s" "s < 1" by blast
  then have b: "bands_remez c = Inr [0, p, s, 1]" by (simp add: bands_remez_def)
  from assms(2) have "Fs c / 2 \<noteq> 2" "Fs c / 2 / 2 \<noteq> 1" by auto
  with ps b m show ?thesis
    by (simp add: h_remez_def M_remez_def remez_script_call valid_bands_remez_iff)
qed

theorem h_remez_band_mismatch_witness:
  "\<forall>ex. h_remez ex task = Inl InvalidBandSpec"
  using h_remez_band_mismatch [OF task_valid] by simp

text \<open>
  The frequency-sampling call on every branch: an error of the Kaiser length
  propagates; otherwise the synthesis is run on the breakpoints \<open>0, F_pass, F_stop, Fs / 2\<close>
  with the gains \<open>1, 1, 0, 0\<close> and the Nyquist frequency \<open>Fs / 2\<close> exactly when the
  specification is valid, and the call fails with \<open>InvalidBreakpoints\<close> otherwise.
\<close>

theorem h_firls_branches:
  "h_firls syn c =
     (case M_kaiser c of Inl e \<Rightarrow> Inl e
      | Inr m \<Rightarrow>
          if 0 < F_pass c \<and> F_pass c < F_stop c \<and> F_stop c < Fs c / 2
          then Inr (syn (nat m) [0, F_pass c, F_stop c, Fs c / 2] [1, 1, 0, 0] (Fs c / 2))
          else Inl InvalidBreakpoints)"
proof (cases "M_kaiser c")
  case (Inl e)
  then show ?thesis by (simp add: h_firls_def M_firls_def)
next
  case (Inr m)
  then show ?thesis
    by (simp add: h_firls_eq valid_spec_def bands_firls_def desired_amps_firls_def)
qed

text \<open>
  C29. The breakpoint check of the frequency-sampling contract accepts the script's
  breakpoints for exactly the specifications that the SpecNormalizer contract accepts.
\<close>

theorem breakpoints_check_is_spec_check:
  "valid_breakpoints (bands_firls c) desired_amps_firls \<longleftrightarrow> is_ok (normalize c)"
  by (simp add: valid_breakpoints_firls_iff normalize_ok_iff)

end
