(* ===== verification/Pyplot.thy ===== *)
theory Pyplot
  imports Freq_Response
begin

text \<open>
  The plotting interface that the script drives in lines 88 to 110 of \<^verbatim>\<open>src/66.py\<close>, as a
  state machine. The interface is stateful: each call changes the current figure. A call
  is a value of \<open>plot_cmd\<close>, the current figure is the record \<open>figure\<close>, and \<open>exec\<close> is the
  effect of one call; plotting two sequences of different lengths is the only call that
  fails. \<open>plot_of\<close> is the call that plots a given curve. \<open>run\<close> executes a list of calls
  and stops at the first failure. \<open>plot_step\<close> is
  the same machine as a step relation on pairs of the calls still to make and the current
  figure, and \<open>plot_steps\<close> its runs. The type of legend labels and the type of captions
  are parameters: the interface does not look into them.

  The lemmas show that a well-formed figure stays well-formed (\<open>wf_figure\<close>: every curve
  has as many abscissas as ordinates, and the legend lists labels of curves), that a
  well-formed call cannot fail, that \<open>run\<close> and the step relation agree, and what the
  calls made so far have done to the figure: its curves are those of the plotting calls
  (\<open>plotted\<close>), it is shown once \<open>Show\<close> was called, and its legend is untouched before
  \<open>Legend\<close> is called.
\<close>

section \<open>Calls and figures\<close>

datatype line_style = Default_Solid | Black_Dashed | Red_Dashed | Green_Dashed

datatype ('l, 't) plot_cmd =
    Figure real real
  | Plot "real list" "decibel list" line_style "'l option"
  | Title 't
  | Xlabel 't
  | Ylabel 't
  | Xlim real real
  | Ylim real real
  | Grid
  | Legend
  | Show

record 'l curve =
  xdata :: "real list"
  ydata :: "decibel list"
  curve_style :: line_style
  curve_label :: "'l option"

record ('l, 't) figure =
  fig_size :: "(real \<times> real) option"
  fig_curves :: "'l curve list"
  fig_title :: "'t option"
  fig_xlabel :: "'t option"
  fig_ylabel :: "'t option"
  fig_xlim :: "(real \<times> real) option"
  fig_ylim :: "(real \<times> real) option"
  fig_grid :: bool
  fig_legend :: "'l list option"
  fig_shown :: bool

definition blank :: "('l, 't) figure" where
  "blank = \<lparr>fig_size = None, fig_curves = [], fig_title = None, fig_xlabel = None,
     fig_ylabel = None, fig_xlim = None, fig_ylim = None, fig_grid = False,
     fig_legend = None, fig_shown = False\<rparr>"

fun labels_of :: "'l curve list \<Rightarrow> 'l list" where
  "labels_of [] = []"
| "labels_of (c # cs) =
     (case curve_label c of None \<Rightarrow> labels_of cs | Some l \<Rightarrow> l # labels_of cs)"

fun exec :: "('l, 't) plot_cmd \<Rightarrow> ('l, 't) figure \<Rightarrow> ('l, 't) figure result" where
  "exec (Figure w h) f = Inr (blank\<lparr>fig_size := Some (w, h)\<rparr>)"
| "exec (Plot xs ys st l) f =
     (if length xs \<noteq> length ys then Inl ShapeMismatch
      else Inr (f\<lparr>fig_curves := fig_curves f
        @ [\<lparr>xdata = xs, ydata = ys, curve_style = st, curve_label = l\<rparr>]\<rparr>))"
| "exec (Title t) f = Inr (f\<lparr>fig_title := Some t\<rparr>)"
| "exec (Xlabel t) f = Inr (f\<lparr>fig_xlabel := Some t\<rparr>)"
| "exec (Ylabel t) f = Inr (f\<lparr>fig_ylabel := Some t\<rparr>)"
| "exec (Xlim a b) f = Inr (f\<lparr>fig_xlim := Some (a, b)\<rparr>)"
| "exec (Ylim a b) f = Inr (f\<lparr>fig_ylim := Some (a, b)\<rparr>)"
| "exec Grid f = Inr (f\<lparr>fig_grid := True\<rparr>)"
| "exec Legend f = Inr (f\<lparr>fig_legend := Some (labels_of (fig_curves f))\<rparr>)"
| "exec Show f = Inr (f\<lparr>fig_shown := True\<rparr>)"

definition plot_of :: "'l curve \<Rightarrow> ('l, 't) plot_cmd" where
  "plot_of c = Plot (xdata c) (ydata c) (curve_style c) (curve_label c)"

fun run :: "('l, 't) plot_cmd list \<Rightarrow> ('l, 't) figure \<Rightarrow> ('l, 't) figure result" where
  "run [] f = Inr f"
| "run (c # cs) f = rbind (exec c f) (run cs)"

inductive plot_step ::
  "('l, 't) plot_cmd list \<times> ('l, 't) figure \<Rightarrow> ('l, 't) plot_cmd list \<times> ('l, 't) figure \<Rightarrow> bool"
where
  call: "exec c f = Inr f' \<Longrightarrow> plot_step (c # cs, f) (cs, f')"

inductive plot_steps ::
  "('l, 't) plot_cmd list \<times> ('l, 't) figure \<Rightarrow> ('l, 't) plot_cmd list \<times> ('l, 't) figure \<Rightarrow> bool"
where
  here: "plot_steps s s"
| after: "plot_step s t \<Longrightarrow> plot_steps t u \<Longrightarrow> plot_steps s u"

section \<open>Well-formed calls and figures\<close>

fun plotted :: "('l, 't) plot_cmd list \<Rightarrow> 'l curve list" where
  "plotted [] = []"
| "plotted (Plot xs ys st l # cs)
     = \<lparr>xdata = xs, ydata = ys, curve_style = st, curve_label = l\<rparr> # plotted cs"
| "plotted (c # cs) = plotted cs"

fun is_figure :: "('l, 't) plot_cmd \<Rightarrow> bool" where
  "is_figure (Figure w h) = True"
| "is_figure c = False"


fun wf_cmd :: "('l, 't) plot_cmd \<Rightarrow> bool" where
  "wf_cmd (Plot xs ys st l) = (length xs = length ys)"
| "wf_cmd c = True"

definition wf_curve :: "'l curve \<Rightarrow> bool" where
  "wf_curve c \<longleftrightarrow> length (xdata c) = length (ydata c)"

definition wf_figure :: "('l, 't) figure \<Rightarrow> bool" where
  "wf_figure f \<longleftrightarrow>
     list_all wf_curve (fig_curves f)
     \<and> (case fig_legend f of None \<Rightarrow> True
         | Some ls \<Rightarrow> set ls \<subseteq> set (labels_of (fig_curves f)))"

section \<open>Lemmas on calls\<close>

inductive_cases plot_step_ConsE: "plot_step (c # cs, f) t"

inductive_cases plot_step_NilE: "plot_step ([], f) t"

inductive_simps plot_step_simps: "plot_step (cs, f) (cs', f')"

lemma blank_fields [simp]:
  "fig_size blank = None" "fig_curves blank = []" "fig_title blank = None"
  "fig_xlabel blank = None" "fig_ylabel blank = None" "fig_xlim blank = None"
  "fig_ylim blank = None" "\<not> fig_grid blank" "fig_legend blank = None" "\<not> fig_shown blank"
  by (simp_all add: blank_def)

lemma wf_blank [simp]: "wf_figure blank"
  by (simp add: wf_figure_def)

lemma labels_of_append [simp]: "labels_of (cs @ ds) = labels_of cs @ labels_of ds"
  by (induction cs) (simp_all split: option.splits)

lemma exec_ok_iff: "is_ok (exec c f) \<longleftrightarrow> wf_cmd c"
  by (cases c) simp_all

lemma exec_error: "exec c f = Inl e \<Longrightarrow> e = ShapeMismatch \<and> \<not> wf_cmd c"
  by (cases c) (simp_all split: if_splits)

lemma exec_progress: "wf_cmd c \<Longrightarrow> \<exists>f'. exec c f = Inr f'"
  using exec_ok_iff [of c f] by (simp add: is_ok_iff)

lemma exec_preserves_wf:
  assumes "exec c f = Inr f'" "wf_figure f"
  shows "wf_figure f'"
  using assms
  by (cases c) (auto simp: wf_figure_def wf_curve_def split: if_splits option.splits)

section \<open>Runs\<close>

lemma plot_step_deterministic: "plot_step s t \<Longrightarrow> plot_step s u \<Longrightarrow> t = u"
  by (auto elim!: plot_step.cases)

lemma plot_step_progress: "wf_cmd c \<Longrightarrow> \<exists>f'. plot_step (c # cs, f) (cs, f')"
  by (auto dest: exec_progress [of c f] intro: plot_step.call)

lemma plot_step_preserves_wf:
  "plot_step s t \<Longrightarrow> wf_figure (snd s) \<Longrightarrow> wf_figure (snd t)"
  by (induction rule: plot_step.induct) (auto intro: exec_preserves_wf)

lemma plot_steps_preserve_wf:
  "plot_steps s t \<Longrightarrow> wf_figure (snd s) \<Longrightarrow> wf_figure (snd t)"
  by (induction rule: plot_steps.induct) (auto intro: plot_step_preserves_wf)

lemma plot_steps_trans: "plot_steps s t \<Longrightarrow> plot_steps t u \<Longrightarrow> plot_steps s u"
  by (induction rule: plot_steps.induct) (auto intro: plot_steps.intros)

lemma plot_steps_suffix:
  "plot_steps s t \<Longrightarrow> \<exists>ds. fst s = ds @ fst t"
proof (induction rule: plot_steps.induct)
  case (here s)
  show ?case by simp
next
  case (after s t u)
  then show ?case by (auto elim!: plot_step.cases)
qed

lemma run_steps: "run cs f = Inr f' \<Longrightarrow> plot_steps (cs, f) ([], f')"
proof (induction cs arbitrary: f)
  case Nil
  then show ?case by (auto intro: plot_steps.here)
next
  case (Cons c cs)
  then obtain g where g: "exec c f = Inr g" and "run cs g = Inr f'"
    by (auto simp: rbind_eq_Inr_iff)
  with Cons.IH have "plot_steps (cs, g) ([], f')" by simp
  with g show ?case by (auto intro: plot_steps.after plot_step.call)
qed

lemma steps_run: "plot_steps s t \<Longrightarrow> fst t = [] \<Longrightarrow> run (fst s) (snd s) = Inr (snd t)"
proof (induction rule: plot_steps.induct)
  case (here s)
  then show ?case by simp
next
  case (after s t u)
  then show ?case by (auto elim!: plot_step.cases)
qed

lemma run_iff_steps: "run cs f = Inr f' \<longleftrightarrow> plot_steps (cs, f) ([], f')"
  using run_steps [of cs f f'] steps_run [of "(cs, f)" "([], f')"] by auto

lemma run_append: "run (cs @ ds) f = rbind (run cs f) (run ds)"
proof (induction cs arbitrary: f)
  case Nil
  show ?case by simp
next
  case (Cons c cs)
  then show ?case by (cases "exec c f") (simp_all add: rbind_assoc)
qed

lemma run_ok_iff: "is_ok (run cs f) \<longleftrightarrow> list_all wf_cmd cs"
proof (induction cs arbitrary: f)
  case Nil
  show ?case by simp
next
  case (Cons c cs)
  show ?case
  proof (cases "exec c f")
    case (Inl e)
    with exec_error [OF Inl] show ?thesis by simp
  next
    case (Inr g)
    with exec_ok_iff [of c f] Cons.IH [of g] show ?thesis by simp
  qed
qed

lemma run_error: "run cs f = Inl e \<Longrightarrow> e = ShapeMismatch"
proof (induction cs arbitrary: f)
  case Nil
  then show ?case by simp
next
  case (Cons c cs)
  then show ?case by (auto simp: rbind_eq_Inl_iff dest: exec_error)
qed

lemma wf_plot_of [simp]: "wf_cmd (plot_of c) \<longleftrightarrow> wf_curve c"
  by (simp add: plot_of_def wf_curve_def)

lemma wf_plots [simp]: "list_all wf_cmd (map plot_of cs) \<longleftrightarrow> list_all wf_curve cs"
  by (induction cs) simp_all

lemma run_plots:
  "list_all wf_curve cs \<Longrightarrow> run (map plot_of cs) f = Inr (f\<lparr>fig_curves := fig_curves f @ cs\<rparr>)"
proof (induction cs arbitrary: f)
  case Nil
  show ?case by simp
next
  case (Cons c cs)
  then show ?case by (simp add: plot_of_def wf_curve_def)
qed

lemma plot_steps_wf_cmds:
  "plot_steps s t \<Longrightarrow> list_all wf_cmd (fst s) \<Longrightarrow> list_all wf_cmd (fst t)"
  using plot_steps_suffix [of s t] by auto

lemma plot_steps_finish:
  "plot_steps s t \<Longrightarrow> plot_steps s ([], f) \<Longrightarrow> plot_steps t ([], f)"
proof (induction rule: plot_steps.induct)
  case (here s)
  then show ?case .
next
  case (after s t u)
  from after.prems after.hyps(1) have "plot_steps t ([], f)"
    by (cases rule: plot_steps.cases) (auto dest: plot_step_deterministic elim: plot_step.cases)
  then show ?case by (rule after.IH)
qed

lemma plot_steps_progress:
  assumes "plot_steps s (cs, f)" "list_all wf_cmd (fst s)"
  shows "cs = [] \<or> (\<exists>t. plot_step (cs, f) t)"
proof (cases cs)
  case Nil
  then show ?thesis by simp
next
  case (Cons c ds)
  with plot_steps_wf_cmds [OF assms] have "wf_cmd c" by simp
  with Cons plot_step_progress [of c ds f] show ?thesis by blast
qed

lemma run_preserves_wf: "run cs f = Inr f' \<Longrightarrow> wf_figure f \<Longrightarrow> wf_figure f'"
  using plot_steps_preserve_wf [of "(cs, f)" "([], f')"] by (simp add: run_iff_steps)

section \<open>What a run has drawn\<close>

lemma plot_steps_prefix:
  "plot_steps s t \<Longrightarrow> \<exists>ds. fst s = ds @ fst t \<and> run ds (snd s) = Inr (snd t)"
proof (induction rule: plot_steps.induct)
  case (here s)
  show ?case by simp
next
  case (after s t u)
  then obtain ds where ds: "fst t = ds @ fst u" "run ds (snd t) = Inr (snd u)" by blast
  from after.hyps(1) obtain c cs f g where "s = (c # cs, f)" "t = (cs, g)" "exec c f = Inr g"
    by (auto elim: plot_step.cases)
  with ds show ?case by (intro exI [of _ "c # ds"]) simp
qed

lemma plotted_append [simp]: "plotted (cs @ ds) = plotted cs @ plotted ds"
  by (induction cs rule: plotted.induct) simp_all

lemma plotted_plots [simp]: "plotted (map plot_of cs) = cs"
  by (induction cs) (simp_all add: plot_of_def)

lemma exec_effect:
  assumes "exec c f = Inr f'" "\<not> is_figure c"
  shows "fig_curves f' = fig_curves f @ plotted [c]"
    and "fig_shown f' \<longleftrightarrow> fig_shown f \<or> c = Show"
    and "c \<noteq> Legend \<Longrightarrow> fig_legend f' = fig_legend f"
  using assms by (cases c; auto split: if_splits)+

lemma run_effect_all:
  assumes "run ds f = Inr f'" "list_all (\<lambda>c. \<not> is_figure c) ds"
  shows "fig_curves f' = fig_curves f @ plotted ds
     \<and> (fig_shown f' \<longleftrightarrow> fig_shown f \<or> Show \<in> set ds)
     \<and> (Legend \<notin> set ds \<longrightarrow> fig_legend f' = fig_legend f)"
  using assms
proof (induction ds arbitrary: f)
  case Nil
  then show ?case by simp
next
  case (Cons c ds)
  then obtain g where g: "exec c f = Inr g" "run ds g = Inr f'"
    by (auto simp: rbind_eq_Inr_iff)
  from Cons.prems(2) have c: "\<not> is_figure c" and ds: "list_all (\<lambda>c. \<not> is_figure c) ds"
    by simp_all
  have "plotted (c # ds) = plotted [c] @ plotted ds"
    using plotted_append [of "[c]" ds] by simp
  with Cons.IH [OF g(2) ds] exec_effect [OF g(1) c] show ?case
    by (cases "c = Legend") auto
qed

lemmas run_effect = run_effect_all [THEN conjunct1] run_effect_all [THEN conjunct2, THEN conjunct1]
  run_effect_all [THEN conjunct2, THEN conjunct2, rule_format]

end
