(* ===== verification/Presentation.thy ===== *)
theory Presentation
  imports Band_Designs Pyplot
begin

text \<open>
  The presentation part of the script (\<^verbatim>\<open>src/66.py\<close>, lines 88 to 117). Its data: the
  legend entries of the four curves (\<open>curve_labels\<close>), the requirement lines, the axis
  limits and the printed lines with the filter lengths. Its calls: \<open>plot_program\<close> is the list of
  plotting calls of lines 88 to 110 in their order, over the interface of the theory
  \<open>Pyplot\<close>, and \<open>stdout_lines\<close> the lines printed by lines 113 to 117. A shape parameter
  is shown with two decimals; \<open>round_2f\<close> gives the shown value in hundredths. The wording
  of captions and printed lines is not modelled: a caption is a value of \<open>caption\<close> and a
  printed line a value of \<open>out_line\<close>, which keep the numbers that the text shows.

  \<open>present\<close> is the whole part: the labels, the run of the plotting calls from the blank
  figure, and the printed lines. \<open>the_labels\<close> and \<open>the_final\<close> name the labels and the
  figure that a successful run ends with.

  The lemmas give the run of the plotting calls: it fails exactly when a curve and the
  frequency grid differ in length, every figure on the way is well-formed, and otherwise
  the run ends with the figure shown, eight curves on it and five entries in its legend.
  In every state on the way (\<open>plot_program_state\<close>) the curves drawn so far are the first
  of these eight, the figure is shown only when no call is left, and the legend is made
  only after all curves are drawn.
\<close>

section \<open>Legend entries\<close>

datatype design = Window_Hanning | Kaiser_Window | Remez | FIRLS

record curve_label =
  shown_design :: design
  shown_length :: int
  shown_beta :: "int option"

definition round_2f :: "real \<Rightarrow> int" where
  "round_2f x = round (100 * x)"

definition label_window :: curve_label where
  "label_window = \<lparr>shown_design = Window_Hanning, shown_length = M_window, shown_beta = None\<rparr>"

definition label_kaiser :: "config \<Rightarrow> curve_label result" where
  "label_kaiser c =
     rbind (M_kaiser c) (\<lambda>mk. rbind (beta_kaiser c) (\<lambda>b. Inr
       \<lparr>shown_design = Kaiser_Window, shown_length = mk, shown_beta = Some (round_2f b)\<rparr>))"

definition label_remez :: "config \<Rightarrow> curve_label result" where
  "label_remez c =
     rbind (M_remez c) (\<lambda>mr. Inr
       \<lparr>shown_design = Remez, shown_length = mr, shown_beta = None\<rparr>)"

definition label_firls :: "config \<Rightarrow> curve_label result" where
  "label_firls c =
     rbind (M_firls c) (\<lambda>mf. Inr
       \<lparr>shown_design = FIRLS, shown_length = mf, shown_beta = None\<rparr>)"

definition curve_labels :: "config \<Rightarrow> curve_label list result" where
  "curve_labels c =
     rbind (label_kaiser c) (\<lambda>lk. rbind (label_remez c) (\<lambda>lr. rbind (label_firls c) (\<lambda>lf.
       Inr [label_window, lk, lr, lf])))"

section \<open>Requirement lines and axes\<close>

record segment =
  seg_x :: "real \<times> real"
  seg_y :: "real \<times> real"
  seg_style :: line_style
  seg_legend :: "string option"

definition passband_upper :: "config \<Rightarrow> segment" where
  "passband_upper c =
     \<lparr>seg_x = (0, F_pass c), seg_y = (Rp c, Rp c), seg_style = Black_Dashed,
      seg_legend = None\<rparr>"

definition passband_lower :: "config \<Rightarrow> segment" where
  "passband_lower c =
     \<lparr>seg_x = (0, F_pass c), seg_y = (- Rp c, - Rp c), seg_style = Black_Dashed,
      seg_legend = None\<rparr>"

definition stopband_line :: "config \<Rightarrow> segment" where
  "stopband_line c =
     \<lparr>seg_x = (F_stop c, Fs c / 2), seg_y = (- Rs c, - Rs c), seg_style = Red_Dashed,
      seg_legend = Some ''Wymagane Rs''\<rparr>"

definition transition_line :: "config \<Rightarrow> segment" where
  "transition_line c =
     \<lparr>seg_x = (F_pass c, F_stop c), seg_y = (0, 0), seg_style = Green_Dashed,
      seg_legend = None\<rparr>"

definition requirement_lines :: "config \<Rightarrow> segment list" where
  "requirement_lines c =
     [passband_upper c, passband_lower c, stopband_line c, transition_line c]"

definition xlim :: "config \<Rightarrow> real \<times> real" where
  xlim_def [script_defs]: "xlim c = (0, Fs c / 2)"

definition ylim :: "real \<times> real" where
  ylim_def [script_defs]: "ylim = (- 60, 5)"

definition in_range :: "real \<times> real \<Rightarrow> real \<times> real \<Rightarrow> bool" where
  "in_range r bounds \<longleftrightarrow>
     fst bounds \<le> fst r \<and> fst r \<le> snd r \<and> snd r \<le> snd bounds"

definition visible :: "config \<Rightarrow> segment \<Rightarrow> bool" where
  "visible c s \<longleftrightarrow> in_range (seg_x s) (xlim c) \<and> in_range (seg_y s) ylim"

section \<open>The plotting calls and the printed lines\<close>

datatype legend_label = Curve_Label curve_label | Text_Label string

datatype caption = Title_kHz real | Frequency_Hz | Amplitude_dB

type_synonym call = "(legend_label, caption) plot_cmd"

definition response_curves ::
  "real list \<Rightarrow> decibel list list \<Rightarrow> curve_label list \<Rightarrow> legend_label curve list" where
  response_curves_def [script_defs]:
  "response_curves w curves labels =
     map (\<lambda>(ys, l). \<lparr>xdata = w, ydata = ys, curve_style = Default_Solid,
       curve_label = Some (Curve_Label l)\<rparr>) (zip curves labels)"

definition segment_curve :: "segment \<Rightarrow> legend_label curve" where
  segment_curve_def [script_defs]:
  "segment_curve s =
     \<lparr>xdata = [fst (seg_x s), snd (seg_x s)], ydata = [Db (fst (seg_y s)), Db (snd (seg_y s))],
      curve_style = seg_style s, curve_label = map_option Text_Label (seg_legend s)\<rparr>"

definition requirement_curves :: "config \<Rightarrow> legend_label curve list" where
  requirement_curves_def [script_defs]:
  "requirement_curves c = map segment_curve (requirement_lines c)"

definition title :: "config \<Rightarrow> caption" where
  title_def [script_defs]: "title c = Title_kHz (Fs c / 1000)"

definition xlabel :: caption where
  xlabel_def [script_defs]: "xlabel = Frequency_Hz"

definition ylabel :: caption where
  ylabel_def [script_defs]: "ylabel = Amplitude_dB"

definition decorations :: "config \<Rightarrow> call list" where
  decorations_def [script_defs]:
  "decorations c =
     [Title (title c), Xlabel xlabel, Ylabel ylabel,
      Xlim (fst (xlim c)) (snd (xlim c)), Ylim (fst ylim) (snd ylim), Grid, Legend, Show]"

definition figsize :: "real \<times> real" where
  figsize_def [script_defs]: "figsize = (12, 6)"

definition plot_program ::
  "config \<Rightarrow> real list \<Rightarrow> decibel list list \<Rightarrow> curve_label list \<Rightarrow> call list" where
  plot_program_def [script_defs]:
  "plot_program c w curves labels =
     Figure (fst figsize) (snd figsize) # map plot_of (response_curves w curves labels)
       @ map plot_of (requirement_curves c) @ decorations c"

datatype out_line = Summary_Header | Length_Line design int

definition line_header :: out_line where
  "line_header = Summary_Header"

definition line_window :: out_line where
  "line_window = Length_Line Window_Hanning M_window"

definition line_kaiser :: "config \<Rightarrow> out_line result" where
  "line_kaiser c = rbind (M_kaiser c) (\<lambda>m. Inr (Length_Line Kaiser_Window m))"

definition line_remez :: "config \<Rightarrow> out_line result" where
  "line_remez c = rbind (M_remez c) (\<lambda>m. Inr (Length_Line Remez m))"

definition line_firls :: "config \<Rightarrow> out_line result" where
  "line_firls c = rbind (M_firls c) (\<lambda>m. Inr (Length_Line FIRLS m))"

definition stdout_lines :: "config \<Rightarrow> out_line list result" where
  "stdout_lines c =
     rbind (line_kaiser c) (\<lambda>lk. rbind (line_remez c) (\<lambda>lr. rbind (line_firls c) (\<lambda>lf.
       Inr [line_header, line_window, lk, lr, lf])))"

definition the_labels :: "config \<Rightarrow> int \<Rightarrow> curve_label list" where
  "the_labels c m =
     [\<lparr>shown_design = Window_Hanning, shown_length = 47, shown_beta = None\<rparr>,
      \<lparr>shown_design = Kaiser_Window, shown_length = m,
        shown_beta = Some (round_2f (kaiser_beta (Rs c)))\<rparr>,
      \<lparr>shown_design = Remez, shown_length = m, shown_beta = None\<rparr>,
      \<lparr>shown_design = FIRLS, shown_length = m, shown_beta = None\<rparr>]"

definition the_final ::
  "config \<Rightarrow> real list \<Rightarrow> decibel list list \<Rightarrow> curve_label list
    \<Rightarrow> (legend_label, caption) figure" where
  "the_final c w curves labels =
     blank\<lparr>fig_size := Some figsize,
       fig_curves := response_curves w curves labels @ requirement_curves c,
       fig_title := Some (title c), fig_xlabel := Some Frequency_Hz,
       fig_ylabel := Some Amplitude_dB, fig_xlim := Some (xlim c), fig_ylim := Some ylim,
       fig_grid := True,
       fig_legend := Some (map Curve_Label labels @ [Text_Label ''Wymagane Rs'']),
       fig_shown := True\<rparr>"

definition present ::
  "config \<Rightarrow> real list \<Rightarrow> decibel list list
    \<Rightarrow> (curve_label list \<times> (legend_label, caption) figure \<times> out_line list) result" where
  present_def [script_defs]:
  "present c w curves =
     rbind (curve_labels c) (\<lambda>ls.
     rbind (run (plot_program c w curves ls) blank) (\<lambda>fig.
     rbind (stdout_lines c) (\<lambda>printed. Inr (ls, fig, printed))))"

section \<open>Lemmas\<close>

lemmas curve_labels_defs [script_defs] =
  curve_labels_def label_window_def label_kaiser_def label_remez_def label_firls_def

lemmas stdout_lines_defs [script_defs] =
  stdout_lines_def line_header_def line_window_def line_kaiser_def line_remez_def line_firls_def

lemmas requirement_lines_defs [script_defs] =
  requirement_lines_def passband_upper_def passband_lower_def stopband_line_def
  transition_line_def

lemma round_2f_eqI: "real_of_int n - 1 / 2 \<le> 100 * x \<Longrightarrow> 100 * x < real_of_int n + 1 / 2
    \<Longrightarrow> round_2f x = n"
  unfolding round_2f_def round_def by (rule floor_unique) simp_all

lemma lengths_ok:
  assumes "M_kaiser c = Inr m"
  shows "M_remez c = Inr m" "M_firls c = Inr m"
  using assms by (simp_all add: M_remez_def M_firls_def)

lemma to_dB_single:
  "to_dB [z] = [if cmod z = 0 then NegInf else Db (20 * log 10 (cmod z))]"
  by (simp add: to_dB_def)

lemma db_ge_iff:
  assumes "0 < m"
  shows "- r \<le> 20 * log 10 m \<longleftrightarrow> 10 powr (- r / 20) \<le> m"
proof -
  have "- r \<le> 20 * log 10 m \<longleftrightarrow> - r / 20 \<le> log 10 m" by (simp add: field_simps)
  also from assms have "\<dots> \<longleftrightarrow> 10 powr (- r / 20) \<le> m"
    by (simp add: le_log_iff)
  finally show ?thesis .
qed

lemma db_le_iff:
  assumes "0 < m"
  shows "20 * log 10 m \<le> - r \<longleftrightarrow> m \<le> 10 powr (- r / 20)"
proof -
  have "20 * log 10 m \<le> - r \<longleftrightarrow> log 10 m \<le> - r / 20" by (simp add: field_simps)
  also from assms have "\<dots> \<longleftrightarrow> m \<le> 10 powr (- r / 20)"
    by (simp add: log_le_iff)
  finally show ?thesis .
qed

section \<open>The run of the plotting calls\<close>

lemma wf_segment_curve [simp]: "wf_curve (segment_curve s)"
  by (simp add: wf_curve_def segment_curve_def)

lemma wf_response_curves:
  "length curves = length labels \<Longrightarrow>
     list_all wf_curve (response_curves w curves labels)
       \<longleftrightarrow> list_all (\<lambda>ys. length ys = length w) curves"
proof (induction curves arbitrary: labels)
  case Nil
  then show ?case by (simp add: response_curves_def)
next
  case (Cons ys curves)
  then obtain l ls where "labels = l # ls" by (cases labels) auto
  with Cons show ?case by (auto simp: response_curves_def wf_curve_def)
qed

lemma length_response_curves [simp]:
  "length (response_curves w curves labels) = min (length curves) (length labels)"
  by (simp add: response_curves_def)

lemma labels_of_response_curves:
  "length curves = length labels \<Longrightarrow>
     labels_of (response_curves w curves labels) = map Curve_Label labels"
proof (induction curves arbitrary: labels)
  case Nil
  then show ?case by (simp add: response_curves_def)
next
  case (Cons ys curves)
  then obtain l ls where "labels = l # ls" by (cases labels) auto
  with Cons show ?case by (simp add: response_curves_def)
qed

lemma requirement_curves_props [simp]:
  "list_all wf_curve (requirement_curves c)"
  "length (requirement_curves c) = 4"
  "labels_of (requirement_curves c) = [Text_Label ''Wymagane Rs'']"
  by (simp_all add: requirement_curves_def requirement_lines_defs segment_curve_def
      wf_curve_def)

lemma wf_decorations [simp]: "list_all wf_cmd (decorations c)"
  by (simp add: decorations_def)

lemma run_decorations:
  "run (decorations c) f =
     Inr (f\<lparr>fig_title := Some (title c), fig_xlabel := Some Frequency_Hz,
       fig_ylabel := Some Amplitude_dB, fig_xlim := Some (xlim c), fig_ylim := Some ylim,
       fig_grid := True, fig_legend := Some (labels_of (fig_curves f)), fig_shown := True\<rparr>)"
  by (simp add: decorations_def xlabel_def ylabel_def)

lemma wf_plot_program:
  "length curves = length labels \<Longrightarrow>
     list_all wf_cmd (plot_program c w curves labels)
       \<longleftrightarrow> list_all (\<lambda>ys. length ys = length w) curves"
  by (simp add: plot_program_def wf_response_curves)

lemma run_plot_program:
  assumes "length curves = length labels" "list_all (\<lambda>ys. length ys = length w) curves"
  shows "run (plot_program c w curves labels) f = Inr (the_final c w curves labels)"
proof -
  from assms have "list_all wf_curve (response_curves w curves labels)"
    by (simp add: wf_response_curves)
  then show ?thesis
    using assms(1)
    by (simp add: plot_program_def run_append run_plots run_decorations
        labels_of_response_curves the_final_def)
qed

lemma the_final_fields [simp]:
  "fig_shown (the_final c w curves labels)"
  "fig_curves (the_final c w curves labels)
     = response_curves w curves labels @ requirement_curves c"
  "fig_legend (the_final c w curves labels)
     = Some (map Curve_Label labels @ [Text_Label ''Wymagane Rs''])"
  by (simp_all add: the_final_def)

lemma stdout_lines_ok:
  "M_kaiser c = Inr m \<Longrightarrow> stdout_lines c =
     Inr [Summary_Header, Length_Line Window_Hanning 47, Length_Line Kaiser_Window m,
       Length_Line Remez m, Length_Line FIRLS m]"
  by (simp add: stdout_lines_defs lengths_ok M_window_def)

section \<open>The presentation as a whole\<close>

lemma curve_labels_ok:
  assumes "M_kaiser c = Inr m"
  shows "curve_labels c = Inr (the_labels c m)"
proof -
  from assms obtain d where d: "delta_w c = Inr d" "0 < d"
    by (auto simp: M_kaiser_eq_Inr_iff)
  from beta_kaiser_ok [OF d] assms show ?thesis
    by (simp add: curve_labels_defs lengths_ok M_window_def the_labels_def)
qed

lemma length_the_labels [simp]: "length (the_labels c m) = 4"
  by (simp add: the_labels_def)

lemma curve_labels_error: "M_kaiser c = Inl e \<Longrightarrow> curve_labels c = Inl e"
  by (simp add: curve_labels_defs)

lemma length_curve_labels: "curve_labels c = Inr ls \<Longrightarrow> length ls = 4"
  by (cases "M_kaiser c") (auto simp: curve_labels_ok curve_labels_error)

lemma stdout_lines_error: "M_kaiser c = Inl e \<Longrightarrow> stdout_lines c = Inl e"
  by (simp add: stdout_lines_defs)

lemma present_error: "M_kaiser c = Inl e \<Longrightarrow> present c w curves = Inl e"
  by (simp add: present_def curve_labels_error)

lemma present_mismatch:
  assumes "M_kaiser c = Inr m" "length curves = 4"
    "\<not> list_all (\<lambda>ys. length ys = length w) curves"
  shows "present c w curves = Inl ShapeMismatch"
proof -
  from assms(1) obtain ls where ls: "curve_labels c = Inr ls" "length ls = 4"
    by (simp add: curve_labels_ok)
  with assms(2,3) have "\<not> is_ok (run (plot_program c w curves ls) blank)"
    by (simp add: run_ok_iff wf_plot_program)
  then obtain e where e: "run (plot_program c w curves ls) blank = Inl e"
    by (cases "run (plot_program c w curves ls) blank") simp_all
  from run_error [OF e] e ls show ?thesis by (simp add: present_def)
qed

lemma present_ok:
  assumes "M_kaiser c = Inr m" "length curves = 4"
    "list_all (\<lambda>ys. length ys = length w) curves"
  shows "present c w curves = Inr (the_labels c m, the_final c w curves (the_labels c m),
      [Summary_Header, Length_Line Window_Hanning 47, Length_Line Kaiser_Window m,
       Length_Line Remez m, Length_Line FIRLS m])"
    and "run (plot_program c w curves (the_labels c m)) blank
      = Inr (the_final c w curves (the_labels c m))"
    and "wf_figure (the_final c w curves (the_labels c m))"
proof -
  from assms(2) have len: "length curves = length (the_labels c m)" by simp
  note r = run_plot_program [OF len assms(3), of c blank]
  from r show "run (plot_program c w curves (the_labels c m)) blank
      = Inr (the_final c w curves (the_labels c m))" .
  from run_preserves_wf [OF r] show "wf_figure (the_final c w curves (the_labels c m))"
    by simp
  from r show "present c w curves = Inr (the_labels c m, the_final c w curves (the_labels c m),
      [Summary_Header, Length_Line Window_Hanning 47, Length_Line Kaiser_Window m,
       Length_Line Remez m, Length_Line FIRLS m])"
    by (simp add: present_def curve_labels_ok [OF assms(1)] stdout_lines_ok [OF assms(1)])
qed

section \<open>The states on the way to the shown figure\<close>

lemma split_last:
  assumes "ds @ cs = B @ [x]" "x \<notin> set B"
  shows "x \<in> set ds \<longleftrightarrow> cs = []"
proof (cases cs rule: rev_cases)
  case Nil
  with assms show ?thesis by auto
next
  case (snoc cs' y)
  with assms have "ds @ cs' = B" by simp
  with assms(2) snoc show ?thesis by auto
qed

lemma split_last_two:
  assumes "ds @ cs = B @ [x, y]" "x \<notin> set B" "x \<in> set ds"
  shows "cs = [] \<or> cs = [y]"
proof (cases cs rule: rev_cases)
  case Nil
  then show ?thesis by simp
next
  case (snoc cs' z)
  with assms(1) have "ds @ cs' = B @ [x]" "z = y" by simp_all
  with split_last [OF this(1) assms(2)] assms(3) snoc show ?thesis by simp
qed

lemma plot_program_split:
  "plot_program c w curves labels
     = Figure (fst figsize) (snd figsize)
       # (map plot_of (response_curves w curves labels @ requirement_curves c)
          @ butlast (butlast (decorations c))) @ [Legend, Show]"
  by (simp add: plot_program_def decorations_def)

lemma plot_program_body:
  "list_all (\<lambda>c. \<not> is_figure c)
     (map plot_of (response_curves w curves labels @ requirement_curves c)
        @ butlast (butlast (decorations c)) @ [Legend, Show])"
  "plotted (map plot_of (response_curves w curves labels @ requirement_curves c)
        @ butlast (butlast (decorations c)))
     = response_curves w curves labels @ requirement_curves c"
  "Legend \<notin> set (map plot_of (response_curves w curves labels @ requirement_curves c)
        @ butlast (butlast (decorations c)))"
  "Show \<notin> set (map plot_of (response_curves w curves labels @ requirement_curves c)
        @ butlast (butlast (decorations c)) @ [Legend])"
  by (auto simp: decorations_def list_all_iff plot_of_def)

lemma plot_program_state:
  assumes "plot_steps (plot_program c w curves labels, blank) (cs, f)"
  shows "fig_curves f
      = take (length (fig_curves f)) (response_curves w curves labels @ requirement_curves c)"
    and "fig_shown f \<longleftrightarrow> cs = []"
    and "fig_legend f \<noteq> None
      \<Longrightarrow> fig_curves f = response_curves w curves labels @ requirement_curves c"
proof -
  let ?all = "response_curves w curves labels @ requirement_curves c"
  let ?B = "map plot_of ?all @ butlast (butlast (decorations c))"
  from plot_steps_prefix [OF assms] obtain ds
    where ds: "plot_program c w curves labels = ds @ cs" "run ds blank = Inr f"
    by auto
  have "fig_curves f = take (length (fig_curves f)) ?all \<and> (fig_shown f \<longleftrightarrow> cs = [])
     \<and> (fig_legend f \<noteq> None \<longrightarrow> fig_curves f = ?all)"
  proof (cases ds)
    case Nil
    with ds show ?thesis by (auto simp: plot_program_def)
  next
    case (Cons d ds')
    with ds(1) have d: "d = Figure (fst figsize) (snd figsize)"
      and split: "ds' @ cs = ?B @ [Legend, Show]"
      by (simp_all add: plot_program_split)
    have "list_all (\<lambda>c. \<not> is_figure c) (ds' @ cs)"
      unfolding split using plot_program_body(1) [of w curves labels c] by simp
    then have nf: "list_all (\<lambda>c. \<not> is_figure c) ds'" by simp
    from ds(2) Cons d have run: "run ds' (blank\<lparr>fig_size := Some figsize\<rparr>) = Inr f"
      by simp
    note e = run_effect [OF run nf]
    from arg_cong [OF split, of plotted] plot_program_body(2) [of w curves labels c]
    have p: "plotted ds' @ plotted cs = ?all" by simp
    from e(1) have c: "fig_curves f = plotted ds'" by simp
    with p have "fig_curves f = take (length (fig_curves f)) ?all"
      by (metis append_eq_conv_conj)
    moreover from split plot_program_body(4) [of w curves labels c] e(2)
    have "fig_shown f \<longleftrightarrow> cs = []"
      using split_last [of ds' cs "?B @ [Legend]" Show] by simp
    moreover have "fig_curves f = ?all" if "fig_legend f \<noteq> None"
    proof -
      from that e(3) have "Legend \<in> set ds'" by (cases "Legend \<in> set ds'") auto
      from split_last_two [OF split plot_program_body(3) this] p c show ?thesis by auto
    qed
    ultimately show ?thesis by blast
  qed
  then show "fig_curves f = take (length (fig_curves f)) ?all" "fig_shown f \<longleftrightarrow> cs = []"
    "fig_legend f \<noteq> None \<Longrightarrow> fig_curves f = ?all"
    by blast+
qed

section \<open>Properties\<close>

text \<open>
  C14. The plotting calls always reach the shown figure: when the four curves have as many
  points as the grid, every state reached from the blank figure can be run to the end,
  and the figure at the end is shown, holds the response curves followed by the four
  requirement lines, and lists in its legend the labels of the curves followed by the
  one labelled requirement line.
\<close>

theorem plot_program_reaches_show:
  assumes "length curves = length labels" "list_all (\<lambda>ys. length ys = length w) curves"
    and "plot_steps (plot_program c w curves labels, blank) s"
  shows "\<exists>f. plot_steps s ([], f) \<and> fig_shown f
     \<and> fig_curves f = response_curves w curves labels @ requirement_curves c
     \<and> fig_legend f = Some (map Curve_Label labels @ [Text_Label ''Wymagane Rs''])"
proof -
  note r = run_plot_program [OF assms(1,2), of c blank]
  then have "plot_steps (plot_program c w curves labels, blank) ([], the_final c w curves labels)"
    by (simp add: run_iff_steps)
  from plot_steps_finish [OF assms(3) this] show ?thesis by auto
qed

theorem plot_program_reaches_show_witness:
  "\<exists>f. plot_steps (plot_program task [0] [[Db 0]] (take 1 (the_labels task 18)), blank) ([], f)
     \<and> fig_shown f \<and> length (fig_curves f) = 5
     \<and> fig_legend f = Some [Curve_Label (hd (the_labels task 18)), Text_Label ''Wymagane Rs'']"
  using plot_program_reaches_show [OF _ _ plot_steps.here,
      of "[[Db 0]]" "take 1 (the_labels task 18)" "[0]" task]
  by (auto simp: the_labels_def)

text \<open>
  C27. The presentation on every branch: an error of the Kaiser length propagates; a
  curve whose length differs from the grid's makes the first plotting call of that curve
  fail with \<open>ShapeMismatch\<close>, before anything is printed; otherwise the result is the
  four labels, the shown figure and the five printed lines.
\<close>

theorem present_branches:
  assumes "length curves = 4"
  shows "present c w curves =
     (case M_kaiser c of Inl e \<Rightarrow> Inl e
      | Inr m \<Rightarrow>
          if list_all (\<lambda>ys. length ys = length w) curves
          then Inr (the_labels c m, the_final c w curves (the_labels c m),
            [Summary_Header, Length_Line Window_Hanning 47, Length_Line Kaiser_Window m,
             Length_Line Remez m, Length_Line FIRLS m])
          else Inl ShapeMismatch)"
proof (cases "M_kaiser c")
  case (Inl e)
  then show ?thesis by (simp add: present_error)
next
  case (Inr m)
  show ?thesis
  proof (cases "list_all (\<lambda>ys. length ys = length w) curves")
    case True
    with present_ok(1) [OF Inr assms] Inr show ?thesis by simp
  next
    case False
    with present_mismatch [OF Inr assms] Inr show ?thesis by simp
  qed
qed

theorem present_branches_witness:
  "present task [0] [[Db 0], [Db 0], [], [Db 0]] = Inl ShapeMismatch"
  using present_branches [of "[[Db 0], [Db 0], [], [Db 0]]" task "[0]"]
    M_kaiser_ok [OF delta_w_task]
  by simp

text \<open>
  For a valid specification the four requirement lines lie inside the plotted
  window exactly when the ripple is at most 5 dB in absolute value and the attenuation
  lies between -5 and 60 dB.
\<close>

theorem requirement_lines_visible:
  assumes "valid_spec c"
  shows "list_all (visible c) (requirement_lines c)
     \<longleftrightarrow> \<bar>Rp c\<bar> \<le> 5 \<and> - 5 \<le> Rs c \<and> Rs c \<le> 60"
  using assms
  by (auto simp: requirement_lines_defs visible_def in_range_def xlim_def ylim_def valid_spec_def)

theorem requirement_lines_visible_witness:
  "list_all (visible task) (requirement_lines task)"
  using requirement_lines_visible [OF task_valid] by simp

text \<open>
  C32. The requirement lines drawn in decibels and the linear tolerances of the
  specification describe the same mask: a sample of a response reaches the lower passband
  line exactly when its magnitude is at least \<open>A_pass\<close>, and stays under the stopband line
  exactly when its magnitude is at most \<open>A_stop\<close>.
\<close>

theorem mask_matches_tolerances:
  assumes "to_dB [z] = [d]"
  shows "(Db (fst (seg_y (requirement_lines c ! 1))) \<le> d \<longleftrightarrow> A_pass c \<le> cmod z)
     \<and> (d \<le> Db (fst (seg_y (requirement_lines c ! 2))) \<longleftrightarrow> cmod z \<le> A_stop c)"
proof (cases "cmod z = 0")
  case True
  with assms A_pass_pos [of c] A_stop_pos [of c] show ?thesis
    by (simp add: to_dB_single requirement_lines_defs del: A_pass_pos A_stop_pos)
next
  case False
  then have "0 < cmod z" by simp
  from db_ge_iff [OF this] db_le_iff [OF this] assms False show ?thesis
    by (auto simp: to_dB_single requirement_lines_defs A_pass_def A_stop_def)
qed

theorem mask_matches_tolerances_witness:
  "Db (fst (seg_y (requirement_lines task ! 1))) \<le> Db 0 \<and> A_pass task \<le> 1"
  using mask_matches_tolerances [of 1 "Db 0" task]
  by (simp add: to_dB_single requirement_lines_defs)

text \<open>
  C33. For the script's parameters the legend shows the lengths 47, 18, 18 and 18, and
  the Kaiser entry shows the shape parameter as 2.12.
\<close>

theorem curve_labels_task:
  "\<exists>ls. curve_labels task = Inr ls \<and> map shown_length ls = [47, 18, 18, 18]
     \<and> ls ! 1 = \<lparr>shown_design = Kaiser_Window, shown_length = 18, shown_beta = Some 212\<rparr>"
proof -
  have m: "M_kaiser task = Inr 18"
    using M_kaiser_ok [OF delta_w_task] by (simp add: length_estimate_task)
  have b: "beta_kaiser task = Inr (kaiser_beta 30)"
    using beta_kaiser_ok [OF delta_w_task] by simp
  have "round_2f (kaiser_beta 30) = 212"
    using kaiser_beta_30 by (intro round_2f_eqI) simp_all
  with m b show ?thesis
    by (simp add: curve_labels_defs lengths_ok [OF m] M_window_def)
qed

end
