(* ===== verification/Freq_Sampling.thy ===== *)
theory Freq_Sampling
  imports Band_Designs
begin

text \<open>
  The synthesis of the FrequencySamplingDesigner, which the script reaches through line
  70 of \<^verbatim>\<open>src/66.py\<close>. It follows the steps of the contract: the desired gain is
  interpolated linearly between the breakpoints (\<open>interp\<close>) on a dense grid of
  \<open>pow2_above M + 1\<close> frequencies from zero to the Nyquist frequency, each sample gets the
  phase of a delay of \<open>(M - 1) / 2\<close> samples (\<open>desired_response\<close>), the inverse discrete
  Fourier relation of a real sequence gives the time-domain values (\<open>inverse_transform\<close>),
  and the first \<open>M\<close> of them are tapered by the Hann window. \<open>freq_sampling\<close> has the type
  \<open>sampling\<close> of the parameter of \<open>firwin2\<close> and \<open>h_firls\<close>, so that the lemmas of
  \<open>Band_Designs\<close> apply to it; here they are completed by what the synthesis itself
  guarantees: the length and the symmetry of the taps, and the values of the
  interpolated gain on the three bands of the script.

  The contract leaves the size of the dense grid open. The model takes the smallest power
  of two that is at least the number of taps, as the library that the script calls does.
\<close>

section \<open>The synthesis\<close>

fun interp :: "(real \<times> real) list \<Rightarrow> real \<Rightarrow> real" where
  "interp [] x = 0"
| "interp [(f, g)] x = g"
| "interp ((f0, g0) # (f1, g1) # rest) x =
     (if x \<le> f0 then g0
      else if x \<le> f1 then g0 + (g1 - g0) * (x - f0) / (f1 - f0)
      else interp ((f1, g1) # rest) x)"

function pow2_above :: "nat \<Rightarrow> nat" where
  "pow2_above n = (if n \<le> 1 then 1 else 2 * pow2_above ((n + 1) div 2))"
  by pat_completeness auto
termination
  by (relation "measure id") auto

definition sampled_gain :: "nat \<Rightarrow> real list \<Rightarrow> real list \<Rightarrow> real \<Rightarrow> nat \<Rightarrow> real" where
  sampled_gain_def [designer_defs]:
  "sampled_gain K freqs gains nyquist k = interp (zip freqs gains) (nyquist * real k / real K)"

definition desired_response :: "nat \<Rightarrow> nat \<Rightarrow> real list \<Rightarrow> real list \<Rightarrow> real \<Rightarrow> nat \<Rightarrow> complex"
  where desired_response_def [designer_defs]:
  "desired_response M K freqs gains nyquist k =
     of_real (sampled_gain K freqs gains nyquist k)
       * cis (- (pi * real k / real K * ((real M - 1) / 2)))"

definition inverse_transform :: "nat \<Rightarrow> (nat \<Rightarrow> complex) \<Rightarrow> nat \<Rightarrow> real" where
  inverse_transform_def [designer_defs]:
  "inverse_transform K X n =
     (Re (X 0) + 2 * (\<Sum>k = 1..<K. Re (X k * cis (pi * real k * real n / real K)))
        + Re (X K * cis (pi * real n))) / (2 * real K)"

definition freq_sampling :: sampling where
  freq_sampling_def [designer_defs]:
  "freq_sampling M freqs gains nyquist =
     tabulate M (\<lambda>n. inverse_transform (pow2_above M)
       (desired_response M (pow2_above M) freqs gains nyquist) n * hann M n)"

section \<open>The dense grid\<close>

lemmas pow2_above_simps = pow2_above.simps

declare pow2_above.simps [simp del]

lemma pow2_above_small [simp]: "n \<le> 1 \<Longrightarrow> pow2_above n = 1"
  by (simp add: pow2_above_simps)

lemma pow2_above_step: "2 \<le> n \<Longrightarrow> pow2_above n = 2 * pow2_above ((n + 1) div 2)"
  by (simp add: pow2_above_simps [of n])

lemma pow2_above_ge: "n \<le> pow2_above n"
proof (induction n rule: pow2_above.induct)
  case (1 n)
  show ?case
  proof (cases "n \<le> 1")
    case True
    then show ?thesis by simp
  next
    case False
    with 1 have "(n + 1) div 2 \<le> pow2_above ((n + 1) div 2)" by simp
    with False show ?thesis by (simp add: pow2_above_step)
  qed
qed

lemma pow2_above_power: "\<exists>k. pow2_above n = 2 ^ k"
proof (induction n rule: pow2_above.induct)
  case (1 n)
  show ?case
  proof (cases "n \<le> 1")
    case True
    then have "pow2_above n = 2 ^ 0" by simp
    then show ?thesis ..
  next
    case False
    with 1 obtain k where "pow2_above ((n + 1) div 2) = 2 ^ k" by auto
    with False have "pow2_above n = 2 ^ Suc k" by (simp add: pow2_above_step)
    then show ?thesis ..
  qed
qed

lemma pow2_above_minimal: "2 \<le> n \<Longrightarrow> pow2_above n \<le> 2 * (n - 1)"
proof (induction n rule: pow2_above.induct)
  case (1 n)
  show ?case
  proof (cases "n \<le> 3")
    case True
    with "1.prems" have "n = 2 \<or> n = 3" by auto
    then show ?thesis by (auto simp: pow2_above_step)
  next
    case False
    with 1 have "pow2_above ((n + 1) div 2) \<le> 2 * ((n + 1) div 2 - 1)" by simp
    with False show ?thesis by (simp add: pow2_above_step)
  qed
qed

lemma pow2_above_pos [simp]: "0 < pow2_above n"
  using pow2_above_power [of n] by auto

section \<open>Interpolation of the desired gain\<close>

lemma interp_bounds:
  assumes "\<forall>p\<in>set ps. lo \<le> snd p \<and> snd p \<le> hi" "sorted_wrt (<) (map fst ps)" "ps \<noteq> []"
  shows "lo \<le> interp ps x \<and> interp ps x \<le> hi"
  using assms
proof (induction ps x rule: interp.induct)
  case (1 x)
  then show ?case by simp
next
  case (2 f g x)
  then show ?case by simp
next
  case (3 f0 g0 f1 g1 rest x)
  show ?case
  proof (cases "x \<le> f0 \<or> f1 < x")
    case True
    with 3 show ?thesis by auto
  next
    case False
    define t where "t = (x - f0) / (f1 - f0)"
    from False "3.prems" have t: "0 \<le> t" "t \<le> 1" by (simp_all add: t_def)
    from "3.prems" have g: "lo \<le> g0" "g0 \<le> hi" "lo \<le> g1" "g1 \<le> hi" by simp_all
    have "g0 + (g1 - g0) * (x - f0) / (f1 - f0) = (1 - t) * g0 + t * g1"
      by (simp add: t_def algebra_simps add_divide_distrib diff_divide_distrib)
    moreover have "lo \<le> (1 - t) * g0 + t * g1" "(1 - t) * g0 + t * g1 \<le> hi"
      using convex_bound_le [of g0 hi g1 "1 - t" t] convex_bound_le [of "- g0" "- lo" "- g1" "1 - t" t]
        t g by simp_all
    ultimately show ?thesis using False by simp
  qed
qed

lemma interp_lowpass:
  assumes "0 < fp" "fp < fstop" "fstop < nyquist"
  shows "interp (zip [0, fp, fstop, nyquist] [1, 1, 0, 0]) x =
     (if x \<le> fp then 1 else if x \<le> fstop then (fstop - x) / (fstop - fp) else 0)"
proof -
  from assms have "1 + (0 - 1) * (x - fp) / (fstop - fp) = (fstop - x) / (fstop - fp)"
    by (simp add: field_simps)
  with assms show ?thesis by auto
qed

section \<open>The inverse transform of a linear-phase response\<close>

lemma Re_desired_response:
  "Re (desired_response M K freqs gains nyquist k * cis (pi * real k * real n / real K))
    = sampled_gain K freqs gains nyquist k
        * cos (pi * real k * (real n - (real M - 1) / 2) / real K)"
proof -
  have "- (a * c) + a * x = a * (x - c)" for a c x :: real
    by (simp add: algebra_simps)
  from this [of "pi * real k / real K" "(real M - 1) / 2" "real n"]
  have "- (pi * real k / real K * ((real M - 1) / 2)) + pi * real k * real n / real K
      = pi * real k * (real n - (real M - 1) / 2) / real K"
    by simp
  then show ?thesis
    by (simp add: desired_response_def mult.assoc cis_mult del: of_real_mult)
qed

lemma inverse_transform_cosine:
  assumes "0 < K"
  shows "inverse_transform K (desired_response M K freqs gains nyquist) n =
     (sampled_gain K freqs gains nyquist 0
      + 2 * (\<Sum>k = 1..<K. sampled_gain K freqs gains nyquist k
          * cos (pi * real k * (real n - (real M - 1) / 2) / real K))
      + sampled_gain K freqs gains nyquist K * cos (pi * (real n - (real M - 1) / 2)))
     / (2 * real K)"
proof -
  have first: "Re (desired_response M K freqs gains nyquist 0)
      = sampled_gain K freqs gains nyquist 0"
    by (simp add: desired_response_def)
  from assms have "pi * real K * real n / real K = pi * real n"
    and "pi * real K * (real n - (real M - 1) / 2) / real K = pi * (real n - (real M - 1) / 2)"
    by simp_all
  with Re_desired_response [of M K freqs gains nyquist K n]
  have last: "Re (desired_response M K freqs gains nyquist K * cis (pi * real n))
      = sampled_gain K freqs gains nyquist K * cos (pi * (real n - (real M - 1) / 2))"
    by (simp only:)
  show ?thesis
    unfolding inverse_transform_def by (simp only: first last Re_desired_response)
qed

lemma inverse_transform_sym:
  assumes "0 < K" "n < M"
  shows "inverse_transform K (desired_response M K freqs gains nyquist) (M - Suc n)
    = inverse_transform K (desired_response M K freqs gains nyquist) n"
proof -
  have "cos (pi * real k * (real (M - Suc n) - (real M - 1) / 2) / real K)
      = cos (pi * real k * (real n - (real M - 1) / 2) / real K)" for k
    by (simp only: mirror_offset [OF assms(2)] mult_minus_right minus_divide_left [symmetric]
        cos_minus)
  moreover have "cos (pi * (real (M - Suc n) - (real M - 1) / 2))
      = cos (pi * (real n - (real M - 1) / 2))"
    by (simp only: mirror_offset [OF assms(2)] mult_minus_right cos_minus)
  ultimately show ?thesis by (simp only: inverse_transform_cosine [OF assms(1)])
qed

section \<open>The taps\<close>

lemma length_freq_sampling [simp]: "length (freq_sampling M freqs gains nyquist) = M"
  by (simp add: freq_sampling_def)

lemma symmetric_freq_sampling: "symmetric (freq_sampling M freqs gains nyquist)"
proof (cases "2 \<le> M")
  case True
  show ?thesis
    unfolding freq_sampling_def
    by (rule symmetric_tabulate) (simp add: inverse_transform_sym hann_sym True)
next
  case False
  then have "M = 0 \<or> M = 1" by auto
  then show ?thesis by (auto simp: freq_sampling_def symmetric_def tabulate_def)
qed

lemma nth_freq_sampling:
  "n < M \<Longrightarrow> freq_sampling M freqs gains nyquist ! n =
     inverse_transform (pow2_above M) (desired_response M (pow2_above M) freqs gains nyquist) n
       * hann M n"
  by (simp add: freq_sampling_def)

section \<open>The script's frequency-sampling design\<close>

lemma pow2_above_18: "pow2_above 18 = 32"
  by (simp add: pow2_above_step)

lemma sampled_gain_firls:
  assumes "valid_spec c"
  shows "sampled_gain K (bands_firls c) desired_amps_firls (Fs c / 2) k =
     (if Fs c / 2 * real k / real K \<le> F_pass c then 1
      else if Fs c / 2 * real k / real K \<le> F_stop c
        then (F_stop c - Fs c / 2 * real k / real K) / (F_stop c - F_pass c)
      else 0)"
  using assms interp_lowpass [of "F_pass c" "F_stop c" "Fs c / 2"]
  by (simp add: sampled_gain_def bands_firls_def desired_amps_firls_def valid_spec_def)

lemma sampled_gain_firls_bounds:
  assumes "valid_spec c"
  shows "0 \<le> sampled_gain K (bands_firls c) desired_amps_firls (Fs c / 2) k"
    and "sampled_gain K (bands_firls c) desired_amps_firls (Fs c / 2) k \<le> 1"
proof -
  from assms have "sorted_wrt (<) (map fst (zip (bands_firls c) desired_amps_firls))"
    by (simp add: bands_firls_def desired_amps_firls_def valid_spec_def)
  moreover have "\<forall>p\<in>set (zip (bands_firls c) desired_amps_firls). 0 \<le> snd p \<and> snd p \<le> 1"
    by (simp add: bands_firls_def desired_amps_firls_def)
  ultimately have "0 \<le> interp (zip (bands_firls c) desired_amps_firls) x
      \<and> interp (zip (bands_firls c) desired_amps_firls) x \<le> 1" for x
    by (intro interp_bounds) (simp_all add: bands_firls_def desired_amps_firls_def)
  then show "0 \<le> sampled_gain K (bands_firls c) desired_amps_firls (Fs c / 2) k"
    and "sampled_gain K (bands_firls c) desired_amps_firls (Fs c / 2) k \<le> 1"
    by (simp_all add: sampled_gain_def)
qed

lemma h_firls_freq_sampling_ok:
  assumes "valid_spec c" "M_kaiser c = Inr m"
  shows "h_firls freq_sampling c
    = Inr (freq_sampling (nat m) (bands_firls c) desired_amps_firls (Fs c / 2))"
  using assms by (simp add: h_firls_eq)

lemma M_kaiser_ge_2:
  assumes "valid_spec c" "8 \<le> Rs c" "M_kaiser c = Inr m"
  shows "2 \<le> m"
proof -
  from valid_spec_delta_w [OF assms(1)] obtain d where d: "delta_w c = Inr d" "0 < d"
    by blast
  from length_estimate_ge_1 [OF assms(2) d(2)] M_kaiser_ok [OF d] assms(3)
  show ?thesis by simp
qed

lemma h_firls_task:
  "h_firls freq_sampling task
    = Inr (freq_sampling 18 (bands_firls task) desired_amps_firls 2500)"
proof -
  have "M_kaiser task = Inr 18"
    using M_kaiser_ok [OF delta_w_task] by (simp add: length_estimate_task)
  from h_firls_freq_sampling_ok [OF task_valid this] show ?thesis by simp
qed

section \<open>Properties\<close>

text \<open>
  C34. For a valid specification that asks for at least 8 dB of attenuation the
  frequency-sampling design succeeds, has exactly the script's Kaiser length, and is
  symmetric.
\<close>

theorem h_firls_freq_sampling:
  assumes "valid_spec c" "8 \<le> Rs c"
  shows "\<exists>m h. M_kaiser c = Inr m \<and> h_firls freq_sampling c = Inr h
     \<and> int (length h) = m \<and> symmetric h"
proof -
  from M_kaiser_valid [OF assms(1)] obtain m where m: "M_kaiser c = Inr m" ..
  from M_kaiser_ge_2 [OF assms m] have "int (nat m) = m" by simp
  with m show ?thesis
    by (simp add: h_firls_freq_sampling_ok [OF assms(1) m] symmetric_freq_sampling)
qed

theorem h_firls_freq_sampling_witness:
  "\<exists>h. h_firls freq_sampling task = Inr h \<and> length h = 18 \<and> rev h = h"
  using h_firls_freq_sampling [OF task_valid] symmetric_freq_sampling
  by (simp add: h_firls_task symmetric_def)

text \<open>
  C35. The desired gain that the frequency-sampling design samples for a valid
  specification is one up to the passband edge, zero from the stopband edge on, and falls
  linearly between them; it never leaves the interval from zero to one.
\<close>

theorem desired_gain_script:
  assumes "valid_spec c"
  shows "sampled_gain K (bands_firls c) desired_amps_firls (Fs c / 2) k =
     (if Fs c / 2 * real k / real K \<le> F_pass c then 1
      else if Fs c / 2 * real k / real K \<le> F_stop c
        then (F_stop c - Fs c / 2 * real k / real K) / (F_stop c - F_pass c)
      else 0)
     \<and> 0 \<le> sampled_gain K (bands_firls c) desired_amps_firls (Fs c / 2) k
     \<and> sampled_gain K (bands_firls c) desired_amps_firls (Fs c / 2) k \<le> 1"
  using sampled_gain_firls [OF assms] sampled_gain_firls_bounds [OF assms] by simp

theorem desired_gain_script_witness:
  "sampled_gain 32 (bands_firls task) desired_amps_firls (Fs task / 2) 16 = 1 / 2"
  using desired_gain_script [OF task_valid, of 32 16] by simp

text \<open>
  C36. Every tap of a successful frequency-sampling design is a cosine series over the
  sampled desired gains, centred at the middle of the filter, times the Hann taper: the
  inverse transform of the linear-phase response is real and has this closed form.
\<close>

theorem h_firls_taps:
  assumes "h_firls freq_sampling c = Inr h" "n < length h"
  shows "h ! n =
     (sampled_gain (pow2_above (length h)) (bands_firls c) desired_amps_firls (Fs c / 2) 0
      + 2 * (\<Sum>k = 1..<pow2_above (length h).
          sampled_gain (pow2_above (length h)) (bands_firls c) desired_amps_firls (Fs c / 2) k
            * cos (pi * real k * (real n - (real (length h) - 1) / 2)
                / real (pow2_above (length h))))
      + sampled_gain (pow2_above (length h)) (bands_firls c) desired_amps_firls (Fs c / 2)
          (pow2_above (length h)) * cos (pi * (real n - (real (length h) - 1) / 2)))
     / (2 * real (pow2_above (length h))) * hann (length h) n"
proof -
  from assms(1) obtain m where "M_kaiser c = Inr m"
    by (auto simp: h_firls_def M_firls_def rbind_eq_Inr_iff)
  with assms(1) have h: "h = freq_sampling (nat m) (bands_firls c) desired_amps_firls (Fs c / 2)"
    by (simp add: h_firls_eq split: if_splits)
  then have "length h = nat m" by simp
  with assms(2) h show ?thesis
    by (simp add: nth_freq_sampling inverse_transform_cosine)
qed

theorem h_firls_taps_witness:
  "\<exists>h. h_firls freq_sampling task = Inr h \<and> h ! 0 = 0"
proof -
  have "0 < length (freq_sampling 18 (bands_firls task) desired_amps_firls 2500)" by simp
  from h_firls_taps [OF h_firls_task this] show ?thesis by (simp add: h_firls_task)
qed

end
