(* ===== verification/Cosine_Series.thy ===== *)
theory Cosine_Series
  imports Freq_Response
begin

text \<open>
  Cosine series, the form in which the EquirippleDesigner of the specification holds a
  trial filter: a list \<open>a\<close> of coefficients stands for the response
  \<open>cos_response a omega\<close>, the sum of \<open>a ! k * cos (k * omega)\<close>. \<open>cosine_taps\<close> turns the
  coefficients into the symmetric impulse response with that zero-phase response, and
  \<open>cosine_coeffs\<close> turns the coefficients of a polynomial in \<open>cos omega\<close> into those of
  the cosine series with the same values. Polynomials are lists of coefficients, lowest
  degree first, with the value \<open>horner p x\<close>.

  The lemmas on the optimality of the equiripple solution need the way back:
  \<open>monomial_coeffs\<close> turns a cosine series into a polynomial in \<open>cos omega\<close> that is no longer
  than the series, by the recurrence of the polynomials \<open>chebyshev\<close>; and \<open>horner_agree\<close>
  says that two polynomials which agree at as many points as they have coefficients
  agree everywhere.
\<close>

section \<open>Coefficient lists\<close>

fun horner :: "real list \<Rightarrow> real \<Rightarrow> real" where
  "horner [] x = 0"
| "horner (c # cs) x = c + x * horner cs x"

fun padd :: "real list \<Rightarrow> real list \<Rightarrow> real list" where
  "padd [] q = q"
| "padd p [] = p"
| "padd (a # p) (b # q) = (a + b) # padd p q"

definition smult :: "real \<Rightarrow> real list \<Rightarrow> real list" where
  "smult c p = map (\<lambda>a. c * a) p"

definition pmul_linear :: "real \<Rightarrow> real list \<Rightarrow> real list" where
  "pmul_linear c p = padd (0 # p) (smult (- c) p)"

section \<open>Cosine series\<close>

definition cos_response :: "real list \<Rightarrow> real \<Rightarrow> real" where
  "cos_response a omega = (\<Sum>k<length a. a ! k * cos (real k * omega))"

fun cos_series :: "nat \<Rightarrow> real list \<Rightarrow> real \<Rightarrow> real" where
  "cos_series k [] omega = 0"
| "cos_series k (c # cs) omega = c * cos (real k * omega) + cos_series (Suc k) cs omega"

fun cos_times :: "real list \<Rightarrow> real list" where
  "cos_times [] = []"
| "cos_times (c # cs) = padd (0 # c # smult (1 / 2) cs) (smult (1 / 2) cs)"

fun cosine_coeffs :: "real list \<Rightarrow> real list" where
  "cosine_coeffs [] = []"
| "cosine_coeffs (c # p) = padd [c] (cos_times (cosine_coeffs p))"

definition cosine_taps :: "real list \<Rightarrow> real list" where
  "cosine_taps a =
     tabulate (2 * length a - 1)
       (\<lambda>n. let k = nat \<bar>int n - (int (length a) - 1)\<bar>
            in if k = 0 then a ! 0 else a ! k / 2)"

section \<open>From a cosine series to a polynomial\<close>

fun chebyshev :: "nat \<Rightarrow> real list" where
  "chebyshev 0 = [1]"
| "chebyshev (Suc 0) = [0, 1]"
| "chebyshev (Suc (Suc k)) = padd (smult 2 (0 # chebyshev (Suc k))) (smult (- 1) (chebyshev k))"

definition monomial_coeffs :: "real list \<Rightarrow> real list" where
  "monomial_coeffs a = foldr padd (map (\<lambda>k. smult (a ! k) (chebyshev k)) [0..<length a]) []"

section \<open>Lemmas on coefficient lists\<close>

lemma horner_padd [simp]: "horner (padd p q) x = horner p x + horner q x"
  by (induction p q rule: padd.induct) (simp_all add: algebra_simps)

lemma length_padd [simp]: "length (padd p q) = max (length p) (length q)"
  by (induction p q rule: padd.induct) simp_all

lemma horner_smult [simp]: "horner (smult c p) x = c * horner p x"
  by (induction p) (simp_all add: smult_def algebra_simps)

lemma length_smult [simp]: "length (smult c p) = length p"
  by (simp add: smult_def)

lemma horner_pmul_linear [simp]: "horner (pmul_linear c p) x = (x - c) * horner p x"
  by (simp add: pmul_linear_def algebra_simps)

lemma length_pmul_linear [simp]: "length (pmul_linear c p) = Suc (length p)"
  by (simp add: pmul_linear_def)

lemma horner_sum_list:
  "horner (foldr padd ps []) x = (\<Sum>p\<leftarrow>ps. horner p x)"
  by (induction ps) simp_all

lemma length_foldr_padd:
  "(\<And>p. p \<in> set ps \<Longrightarrow> length p = n) \<Longrightarrow> ps \<noteq> [] \<Longrightarrow> length (foldr padd ps []) = n"
proof (induction ps)
  case Nil
  then show ?case by simp
next
  case (Cons p ps)
  then show ?case by (cases "ps = []") simp_all
qed

lemma length_foldr_padd_le:
  "(\<And>p. p \<in> set ps \<Longrightarrow> length p \<le> n) \<Longrightarrow> length (foldr padd ps []) \<le> n"
  by (induction ps) simp_all

lemma horner_eq_sum: "horner p x = (\<Sum>i<length p. p ! i * x ^ i)"
proof (induction p)
  case Nil
  show ?case by simp
next
  case (Cons c cs)
  have "(\<Sum>i<Suc (length cs). (c # cs) ! i * x ^ i) = c + (\<Sum>i<length cs. cs ! i * x ^ Suc i)"
    unfolding sum.lessThan_Suc_shift by simp
  also have "\<dots> = c + x * (\<Sum>i<length cs. cs ! i * x ^ i)"
    by (simp add: sum_distrib_left algebra_simps)
  finally show ?case using Cons by simp
qed

lemma horner_agree:
  assumes "finite A" "length p \<le> card A" "length q \<le> card A"
    and "\<And>y. y \<in> A \<Longrightarrow> horner p y = horner q y"
  shows "horner p x = horner q x"
proof (cases "card A = 0")
  case True
  with assms(2,3) show ?thesis by simp
next
  case False
  define m where "m = card A - 1"
  define c where "c i = (if i < length p then p ! i else 0) - (if i < length q then q ! i else 0)"
    for i
  have pad: "(\<Sum>i\<le>m. (if i < length r then r ! i else 0) * y ^ i) = horner r y"
    if "length r \<le> card A" for r y
  proof -
    from that False have "{..<length r} \<subseteq> {..m}" by (auto simp: m_def)
    then have "(\<Sum>i\<le>m. (if i < length r then r ! i else 0) * y ^ i)
        = (\<Sum>i<length r. (if i < length r then r ! i else 0) * y ^ i)"
      by (intro sum.mono_neutral_right) auto
    then show ?thesis by (simp add: horner_eq_sum)
  qed
  have diff: "(\<Sum>i\<le>m. c i * y ^ i) = horner p y - horner q y" for y
    by (simp add: c_def left_diff_distrib sum_subtractf pad assms(2,3))
  have "c k = 0" if "k \<le> m" for k
  proof (rule ccontr)
    assume "c k \<noteq> 0"
    from polyfun_rootbound [of c k m] \<open>c k \<noteq> 0\<close> that
    have "finite {z. (\<Sum>i\<le>m. c i * z ^ i) = 0}" "card {z. (\<Sum>i\<le>m. c i * z ^ i) = 0} \<le> m"
      by simp_all
    moreover from assms(4) have "A \<subseteq> {z. (\<Sum>i\<le>m. c i * z ^ i) = 0}" by (auto simp: diff)
    ultimately have "card A \<le> m" by (meson card_mono le_trans)
    with False show False by (simp add: m_def)
  qed
  then have "(\<Sum>i\<le>m. c i * x ^ i) = 0" by simp
  then show ?thesis by (simp add: diff)
qed

section \<open>Lemmas on cosine series\<close>

lemma cos_series_sum:
  "cos_series k a omega = (\<Sum>j<length a. a ! j * cos (real (k + j) * omega))"
proof (induction a arbitrary: k)
  case Nil
  show ?case by simp
next
  case (Cons c cs)
  have "(\<Sum>j<Suc (length cs). (c # cs) ! j * cos (real (k + j) * omega))
      = c * cos (real k * omega) + (\<Sum>j<length cs. cs ! j * cos (real (Suc k + j) * omega))"
    unfolding sum.lessThan_Suc_shift by simp
  with Cons.IH [of "Suc k"] show ?case by simp
qed

lemma cos_response_series: "cos_response a omega = cos_series 0 a omega"
  by (simp add: cos_response_def cos_series_sum)

lemma cos_series_padd [simp]:
  "cos_series k (padd p q) omega = cos_series k p omega + cos_series k q omega"
  by (induction p q arbitrary: k rule: padd.induct) (simp_all add: algebra_simps)

lemma cos_series_smult [simp]: "cos_series k (smult c p) omega = c * cos_series k p omega"
  by (induction p arbitrary: k) (simp_all add: smult_def algebra_simps)

lemma cos_product:
  "cos omega * cos (real (Suc k) * omega)
     = (cos (real (Suc (Suc k)) * omega) + cos (real k * omega)) / 2"
proof -
  have "real (Suc (Suc k)) * omega = real (Suc k) * omega + omega"
    and "real k * omega = real (Suc k) * omega - omega"
    by (simp_all add: algebra_simps)
  then show ?thesis by (simp only: cos_add cos_diff) simp
qed

lemma cos_times_series:
  "cos omega * cos_series (Suc k) a omega
     = (cos_series (Suc (Suc k)) a omega + cos_series k a omega) / 2"
proof (induction a arbitrary: k)
  case Nil
  show ?case by simp
next
  case (Cons c cs)
  have "cos omega * cos_series (Suc k) (c # cs) omega
      = c * (cos omega * cos (real (Suc k) * omega)) + cos omega * cos_series (Suc (Suc k)) cs omega"
    by (simp add: algebra_simps)
  also have "\<dots> = c * ((cos (real (Suc (Suc k)) * omega) + cos (real k * omega)) / 2)
      + (cos_series (Suc (Suc (Suc k))) cs omega + cos_series (Suc k) cs omega) / 2"
    by (simp only: cos_product Cons.IH)
  finally show ?case by (simp add: algebra_simps add_divide_distrib)
qed

lemma cos_response_cos_times:
  "cos_response (cos_times a) omega = cos omega * cos_response a omega"
proof (cases a)
  case Nil
  then show ?thesis by (simp add: cos_response_series)
next
  case (Cons c cs)
  with cos_times_series [of omega 0 cs] show ?thesis
    by (simp add: cos_response_series algebra_simps)
qed

lemma length_cos_times: "a \<noteq> [] \<Longrightarrow> length (cos_times a) = Suc (length a)"
  by (cases a) simp_all

lemma length_cosine_coeffs [simp]: "length (cosine_coeffs p) = length p"
proof (induction p)
  case Nil
  show ?case by simp
next
  case (Cons c p)
  then show ?case by (cases "cosine_coeffs p = []") (simp_all add: length_cos_times)
qed

lemma cos_response_cosine_coeffs:
  "cos_response (cosine_coeffs p) omega = horner p (cos omega)"
proof (induction p)
  case Nil
  show ?case by (simp add: cos_response_series)
next
  case (Cons c p)
  have "cos_response (cosine_coeffs (c # p)) omega
      = c + cos_response (cos_times (cosine_coeffs p)) omega"
    by (simp add: cos_response_series)
  with Cons show ?case by (simp add: cos_response_cos_times)
qed

lemma horner_chebyshev: "horner (chebyshev k) (cos omega) = cos (real k * omega)"
proof (induction k rule: chebyshev.induct)
  case (3 k)
  have "horner (chebyshev (Suc (Suc k))) (cos omega)
      = 2 * (cos omega * cos (real (Suc k) * omega)) - cos (real k * omega)"
    by (simp add: 3)
  also have "\<dots> = cos (real (Suc (Suc k)) * omega)"
    by (simp only: cos_product) (simp add: field_simps)
  finally show ?case .
qed simp_all

lemma length_chebyshev [simp]: "length (chebyshev k) = Suc k"
  by (induction k rule: chebyshev.induct) simp_all

lemma horner_monomial_coeffs:
  "horner (monomial_coeffs a) (cos omega) = cos_response a omega"
  by (simp add: monomial_coeffs_def horner_sum_list cos_response_def horner_chebyshev
      sum_list_sum_nth atLeast0LessThan comp_def)

lemma length_monomial_coeffs: "length (monomial_coeffs a) \<le> length a"
  unfolding monomial_coeffs_def by (rule length_foldr_padd_le) auto

section \<open>Lemmas on the taps\<close>

lemma length_cosine_taps [simp]: "length (cosine_taps a) = 2 * length a - 1"
  by (simp add: cosine_taps_def)

lemma symmetric_cosine_taps: "symmetric (cosine_taps a)"
  unfolding cosine_taps_def
proof (rule symmetric_tabulate)
  fix i
  assume "i < 2 * length a - 1"
  then have "\<bar>int (2 * length a - 1 - Suc i) - (int (length a) - 1)\<bar>
      = \<bar>int i - (int (length a) - 1)\<bar>"
    by (simp add: of_nat_diff)
  then show "(let k = nat \<bar>int (2 * length a - 1 - Suc i) - (int (length a) - 1)\<bar>
      in if k = 0 then a ! 0 else a ! k / 2)
    = (let k = nat \<bar>int i - (int (length a) - 1)\<bar> in if k = 0 then a ! 0 else a ! k / 2)"
    by simp
qed

lemma amplitude_cosine_taps:
  assumes "a \<noteq> []"
  shows "amplitude (cosine_taps a) omega = cos_response a omega"
proof -
  define L where "L = length a - 1"
  with assms have len: "length a = Suc L" by (cases a) simp_all
  define f where "f n = cosine_taps a ! n * cos (omega * (real n - real L))" for n
  have tap: "cosine_taps a ! n = (let k = nat \<bar>int n - int L\<bar> in if k = 0 then a ! 0 else a ! k / 2)"
    if "n < 2 * L + 1" for n
    using that by (simp add: cosine_taps_def len)
  have sym: "f (2 * L - n) = f n" if "n < 2 * L + 1" for n
  proof -
    from that have "\<bar>int (2 * L - n) - int L\<bar> = \<bar>int n - int L\<bar>"
      by (simp add: of_nat_diff)
    with that have t: "cosine_taps a ! (2 * L - n) = cosine_taps a ! n"
      by (simp add: tap)
    from that have "omega * (real (2 * L - n) - real L) = - (omega * (real n - real L))"
      by (simp add: of_nat_diff algebra_simps)
    then have "cos (omega * (real (2 * L - n) - real L)) = cos (omega * (real n - real L))"
      by (simp only: cos_minus)
    with t show ?thesis by (simp only: f_def)
  qed
  have "amplitude (cosine_taps a) omega = (\<Sum>n<2 * L + 1. f n)"
    by (simp add: amplitude_def f_def len)
  also have "\<dots> = sum_list (tabulate (2 * L + 1) f)"
    by (simp add: sum_list_tabulate)
  also have "\<dots> = f L + 2 * (\<Sum>k<L. f (L + Suc k))"
    using sym by (rule sum_list_tabulate_mirror)
  also have "f L = a ! 0" by (simp add: f_def tap)
  also have "2 * (\<Sum>k<L. f (L + Suc k)) = (\<Sum>k<L. a ! Suc k * cos (real (Suc k) * omega))"
    unfolding sum_distrib_left
  proof (rule sum.cong [OF refl])
    fix k
    assume "k \<in> {..<L}"
    then have "L + Suc k < 2 * L + 1" by simp
    moreover have "nat \<bar>int (L + Suc k) - int L\<bar> = Suc k" by simp
    ultimately have "cosine_taps a ! (L + Suc k) = a ! Suc k / 2"
      by (simp only: tap Let_def) simp
    then show "2 * f (L + Suc k) = a ! Suc k * cos (real (Suc k) * omega)"
      by (simp add: f_def mult.commute)
  qed
  also have "a ! 0 + \<dots> = cos_response a omega"
    unfolding cos_response_def len sum.lessThan_Suc_shift [of _ L] by simp
  finally show ?thesis .
qed


end
