(* ===== verification/Equiripple.thy ===== *)
theory Equiripple
  imports Band_Designs Cosine_Series
begin

text \<open>
  The synthesis of the EquirippleDesigner, from its description in the specification: the
  exchange iteration over the unknown coefficients of a cosine series. The script reaches it
  through the call of line 58 of \<^verbatim>\<open>src/66.py\<close>; \<open>equiripple locate\<close> is an \<open>exchange\<close> in the
  sense of the theory \<open>Band_Designs\<close>, so it can take the place of the parameter of
  \<open>h_remez\<close>.

  A design of \<open>n\<close> taps has \<open>(n + 1) div 2\<close> coefficients of a cosine series (theory
  \<open>Cosine_Series\<close>) and \<open>(n + 3) div 2\<close> candidate extremal frequencies.
  \<^item> \<open>seed\<close> spaces the first candidates evenly over the bands, skipping the gaps between
    them: \<open>place\<close> maps a distance along the bands laid end to end to a frequency, and
    \<open>spaced\<close> is the list of frequencies at equal distances.
  \<^item> \<open>solve_system\<close> solves the linear system at the candidates in closed form. With the
    candidates mapped to the nodes \<open>cos (pi * f / nyq)\<close>, the common error \<open>deviation\<close> is a
    quotient of two sums weighted by \<open>bary\<close>, and the coefficients are those of the
    polynomial \<open>lagrange\<close> through the desired gains, corrected by the error with
    alternating sign, at all candidates but the last.
  \<^item> \<open>exchange_loop\<close> repeats the solution and the search for new candidates until the
    candidates stop changing or \<open>max_iter\<close> rounds are done, and returns the last solution
    with the convergence flag. The loop counts down from \<open>max_iter\<close>, which is the bound 250
    of the specification, so it ends for every search. \<open>exchange_step\<close> names one round.
  \<^item> \<open>equiripple\<close> is the design: seed, loop, and \<open>cosine_taps\<close> of the coefficients.

  The search for new candidates is a parameter \<open>locate\<close> of the loop and of the design;
  the theory \<open>Extremal_Search\<close> gives the search of the specification. The lemmas that
  need it assume that it keeps the candidates a list of \<open>(n + 3) div 2\<close>
  increasing frequencies between zero and the Nyquist frequency (\<open>candidates\<close>).

  The lemmas show that the seeds are such candidates, that the solution has the same
  error with alternating sign at every candidate, including the last one, which the
  polynomial is not made to pass through, that the magnitude of this error is a lower
  bound for the largest error on the candidates of every cosine series with as many
  coefficients (\<open>deviation_lower_bound\<close>, \<open>solve_system_optimal\<close>), and that the loop
  stops at the first round whose search leaves the candidates unchanged, or at its last
  round (\<open>exchange_loop_stops\<close>).
\<close>

section \<open>Bands and candidate frequencies\<close>

fun band_pairs :: "real list \<Rightarrow> (real \<times> real) list" where
  "band_pairs (lo # hi # es) = (lo, hi) # band_pairs es"
| "band_pairs es = []"

definition in_bands :: "real list \<Rightarrow> real \<Rightarrow> bool" where
  "in_bands bands f \<longleftrightarrow> list_ex (\<lambda>(lo, hi). lo \<le> f \<and> f \<le> hi) (band_pairs bands)"

fun desired_gain :: "(real \<times> real) list \<Rightarrow> real list \<Rightarrow> real \<Rightarrow> real" where
  "desired_gain ((lo, hi) # bs) (g # gs) f = (if f \<le> hi then g else desired_gain bs gs f)"
| "desired_gain bs gs f = 0"

definition total_width :: "(real \<times> real) list \<Rightarrow> real" where
  "total_width bs = (\<Sum>(lo, hi)\<leftarrow>bs. hi - lo)"

fun place :: "(real \<times> real) list \<Rightarrow> real \<Rightarrow> real" where
  "place [] t = 0"
| "place [(lo, hi)] t = lo + t"
| "place ((lo, hi) # b # bs) t =
     (if t \<le> hi - lo then lo + t else place (b # bs) (t - (hi - lo)))"

definition spaced :: "real list \<Rightarrow> nat \<Rightarrow> real list" where
  "spaced bands G =
     (let bs = band_pairs bands
      in map (\<lambda>i. place bs (real i * total_width bs / real G)) [0..<Suc G])"

definition seed :: "nat \<Rightarrow> real list \<Rightarrow> real list" where
  "seed n bands = spaced bands ((n + 1) div 2)"

section \<open>The linear system at the candidates\<close>

definition nodes :: "real \<Rightarrow> real list \<Rightarrow> real list" where
  "nodes nyq ext = map (\<lambda>f. cos (pi * f / nyq)) ext"

definition others :: "nat \<Rightarrow> nat \<Rightarrow> nat list" where
  "others n i = filter (\<lambda>m. m \<noteq> i) [0..<n]"

definition bary :: "nat \<Rightarrow> real list \<Rightarrow> nat \<Rightarrow> real" where
  "bary n xs i = 1 / (\<Prod>m\<leftarrow>others n i. xs ! i - xs ! m)"

definition deviation :: "real list \<Rightarrow> real list \<Rightarrow> real" where
  "deviation xs ds =
     (\<Sum>i<length xs. bary (length xs) xs i * ds ! i)
       / (\<Sum>i<length xs. bary (length xs) xs i * (- 1) ^ i)"

definition basis_poly :: "nat \<Rightarrow> real list \<Rightarrow> nat \<Rightarrow> real list" where
  "basis_poly n xs j = foldr (\<lambda>m. pmul_linear (xs ! m)) (others n j) [1]"

definition lagrange :: "nat \<Rightarrow> real list \<Rightarrow> real list \<Rightarrow> real list" where
  "lagrange n xs cs =
     foldr padd (map (\<lambda>j. smult (cs ! j * bary n xs j) (basis_poly n xs j)) [0..<n]) []"

definition solve_system :: "real \<Rightarrow> real list \<Rightarrow> real list \<Rightarrow> real list \<Rightarrow> real list \<times> real" where
  "solve_system nyq bands gains ext =
     (let xs = nodes nyq ext;
          ds = map (desired_gain (band_pairs bands) gains) ext;
          dev = deviation xs ds;
          cs = map (\<lambda>i. ds ! i - (- 1) ^ i * dev) [0..<length ext]
      in (cosine_coeffs (lagrange (length ext - 1) xs cs), dev))"

section \<open>The exchange loop\<close>

definition max_iter :: nat where
  "max_iter = 250"

fun exchange_loop ::
  "(real list \<Rightarrow> 'a) \<Rightarrow> ('a \<Rightarrow> real list \<Rightarrow> real list) \<Rightarrow> nat \<Rightarrow> real list \<Rightarrow> 'a \<Rightarrow> 'a \<times> bool"
where
  "exchange_loop solve locate 0 ext t = (t, False)"
| "exchange_loop solve locate (Suc k) ext t =
     (let t' = solve ext; ext' = locate t' ext
      in if ext' = ext then (t', True) else exchange_loop solve locate k ext' t')"

definition exchange_step ::
  "(real list \<Rightarrow> 'a) \<Rightarrow> ('a \<Rightarrow> real list \<Rightarrow> real list) \<Rightarrow> real list \<Rightarrow> real list" where
  "exchange_step solve locate ext = locate (solve ext) ext"

section \<open>The design\<close>

definition equiripple ::
  "(real list \<times> real \<Rightarrow> real list \<Rightarrow> real list) \<Rightarrow> exchange" where
  "equiripple locate n bands gains nyq =
     (let ext = seed n bands;
          ((a, dev), converged) =
            exchange_loop (solve_system nyq bands gains) locate max_iter ext
              (solve_system nyq bands gains ext)
      in (cosine_taps a, converged))"

section \<open>Predicates of the lemmas\<close>

definition candidates :: "nat \<Rightarrow> real \<Rightarrow> real list \<Rightarrow> bool" where
  "candidates n nyq ext \<longleftrightarrow>
     length ext = (n + 3) div 2 \<and> sorted_wrt (<) ext \<and> list_all (\<lambda>f. 0 \<le> f \<and> f \<le> nyq) ext"

definition ordered_bands :: "(real \<times> real) list \<Rightarrow> bool" where
  "ordered_bands bs \<longleftrightarrow> list_all (\<lambda>(lo, hi). lo \<le> hi) bs \<and> sorted (map fst bs)"

definition decreasing :: "nat \<Rightarrow> real list \<Rightarrow> bool" where
  "decreasing n xs \<longleftrightarrow> (\<forall>i<n. \<forall>j<n. i < j \<longrightarrow> xs ! j < xs ! i)"

section \<open>Lemmas on bands and seeds\<close>

lemma length_spaced [simp]: "length (spaced bands G) = Suc G"
  by (simp add: spaced_def Let_def)

lemma length_seed [simp]: "length (seed n bands) = (n + 3) div 2"
  by (simp add: seed_def)

lemma total_width_Cons [simp]:
  "total_width [] = 0" "total_width ((lo, hi) # bs) = hi - lo + total_width bs"
  by (simp_all add: total_width_def)

lemma band_pairs_sorted:
  "sorted es \<Longrightarrow> ordered_bands (band_pairs es)"
proof (induction es rule: band_pairs.induct)
  case (1 lo hi es)
  then have "\<forall>p\<in>set (band_pairs es). lo \<le> fst p"
    by (cases es rule: band_pairs.cases) (auto simp: ordered_bands_def)
  with 1 show ?case by (auto simp: ordered_bands_def)
qed (simp_all add: ordered_bands_def)

lemma total_width_nonneg: "list_all (\<lambda>(lo, hi). lo \<le> hi) bs \<Longrightarrow> 0 \<le> total_width bs"
  by (induction bs) auto

lemma place_in_band:
  assumes "list_all (\<lambda>(lo, hi). lo \<le> hi) bs" "0 \<le> t" "t \<le> total_width bs" "bs \<noteq> []"
  shows "list_ex (\<lambda>(lo, hi). lo \<le> place bs t \<and> place bs t \<le> hi) bs"
  using assms
proof (induction bs t rule: place.induct)
  case (3 lo hi b bs t)
  then show ?case by (cases "t \<le> hi - lo") auto
qed auto

lemma spaced_in_bands:
  assumes "sorted bands" "band_pairs bands \<noteq> []" "f \<in> set (spaced bands G)"
  shows "in_bands bands f"
proof -
  let ?bs = "band_pairs bands" and ?r = G
  from band_pairs_sorted [OF assms(1)] have o: "list_all (\<lambda>(lo, hi). lo \<le> hi) ?bs"
    by (simp add: ordered_bands_def)
  then have w: "0 \<le> total_width ?bs" by (rule total_width_nonneg)
  from assms(3) obtain i where i: "i \<le> ?r" and f: "f = place ?bs (real i * total_width ?bs / real ?r)"
    by (auto simp: spaced_def Let_def less_Suc_eq_le simp del: upt_Suc)
  from i have "real i \<le> real ?r" by simp
  with w have "real i * total_width ?bs \<le> real ?r * total_width ?bs"
    by (intro mult_right_mono)
  with w have "real i * total_width ?bs / real ?r \<le> total_width ?bs"
    by (cases "?r = 0") (simp_all add: divide_le_eq mult.commute)
  moreover from w have "0 \<le> real i * total_width ?bs / real ?r" by simp
  ultimately show ?thesis
    unfolding in_bands_def f using o assms(2) by (intro place_in_band)
qed

lemma band_pairs_edges:
  "(lo, hi) \<in> set (band_pairs es) \<Longrightarrow> lo \<in> set es \<and> hi \<in> set es"
  by (induction es rule: band_pairs.induct) auto

lemma sorted_hd_last: "sorted xs \<Longrightarrow> x \<in> set xs \<Longrightarrow> hd xs \<le> x \<and> x \<le> last xs"
  by (induction xs) auto

lemma in_bands_range:
  assumes "sorted bands" "in_bands bands f"
  shows "hd bands \<le> f" "f \<le> last bands"
proof -
  from assms(2) obtain lo hi where b: "(lo, hi) \<in> set (band_pairs bands)" "lo \<le> f" "f \<le> hi"
    by (auto simp: in_bands_def list_ex_iff)
  from band_pairs_edges [OF b(1)] sorted_hd_last [OF assms(1)]
  have "hd bands \<le> lo" "hi \<le> last bands" by simp_all
  with b show "hd bands \<le> f" "f \<le> last bands" by simp_all
qed

lemma place_lower:
  assumes "sorted es" "band_pairs es \<noteq> []" "0 < t"
  shows "hd es < place (band_pairs es) t"
  using assms
proof (induction es arbitrary: t rule: band_pairs.induct)
  case (1 lo hi es)
  show ?case
  proof (cases "band_pairs es")
    case Nil
    with 1 show ?thesis by simp
  next
    case (Cons b bs)
    obtain lo' hi' where b: "b = (lo', hi')" by (cases b)
    from Cons "1.prems" have s: "sorted es" "band_pairs es \<noteq> []" and h: "lo \<le> hd es"
      by (cases es; auto)+
    show ?thesis
    proof (cases "t \<le> hi - lo")
      case True
      with \<open>0 < t\<close> show ?thesis by (simp add: Cons b)
    next
      case False
      with "1.IH" [OF s, of "t - (hi - lo)"] h show ?thesis by (simp add: Cons b)
    qed
  qed
qed simp_all

lemma place_strict_mono:
  assumes "sorted es" "0 \<le> t" "t < u" "band_pairs es \<noteq> []"
  shows "place (band_pairs es) t < place (band_pairs es) u"
  using assms
proof (induction es arbitrary: t u rule: band_pairs.induct)
  case (1 lo hi es)
  show ?case
  proof (cases "band_pairs es")
    case Nil
    with 1 show ?thesis by simp
  next
    case (Cons b bs)
    obtain lo' hi' where b: "b = (lo', hi')" by (cases b)
    from 1 Cons have s: "sorted es" "band_pairs es \<noteq> []" and h: "hi \<le> hd es"
      by (cases es; auto)+
    consider "u \<le> hi - lo" | "t \<le> hi - lo" "\<not> u \<le> hi - lo" | "\<not> t \<le> hi - lo"
      by linarith
    then show ?thesis
    proof cases
      case 1
      with \<open>t < u\<close> show ?thesis by (simp add: Cons b)
    next
      case 2
      with place_lower [OF s, of "u - (hi - lo)"] h show ?thesis by (simp add: Cons b)
    next
      case 3
      with "1.IH" [OF s(1), of "t - (hi - lo)" "u - (hi - lo)"] s(2) \<open>t < u\<close>
      show ?thesis by (simp add: Cons b)
    qed
  qed
qed simp_all

lemma spaced_sorted:
  assumes "sorted bands" "band_pairs bands \<noteq> []" "0 < total_width (band_pairs bands)" "0 < G"
  shows "sorted_wrt (<) (spaced bands G)"
proof -
  let ?bs = "band_pairs bands"
  have "place ?bs (real i * total_width ?bs / real G) < place ?bs (real j * total_width ?bs / real G)"
    if "i < j" for i j
    using that assms(3,4)
    by (intro place_strict_mono assms(1,2)) (simp_all add: divide_strict_right_mono)
  then show ?thesis
    by (simp add: spaced_def Let_def sorted_wrt_iff_nth_less del: upt_Suc)
qed

lemma spaced_range:
  assumes "sorted bands" "band_pairs bands \<noteq> []" "hd bands = 0" "last bands = nyq"
    and "f \<in> set (spaced bands G)"
  shows "0 \<le> f \<and> f \<le> nyq"
  using in_bands_range [OF assms(1) spaced_in_bands [OF assms(1,2,5)]] assms(3,4) by simp

lemma seed_candidates:
  assumes "sorted bands" "band_pairs bands \<noteq> []" "hd bands = 0" "last bands = nyq"
    and "0 < total_width (band_pairs bands)" "0 < n"
  shows "candidates n nyq (seed n bands)"
  using spaced_sorted [OF assms(1,2,5), of "(n + 1) div 2"] spaced_range [OF assms(1-4)] assms(6)
  by (simp add: candidates_def list_all_iff seed_def)

section \<open>Lemmas on the loop\<close>

lemma exchange_loop_converged:
  assumes "exchange_loop solve locate n ext t = (u, True)"
  shows "\<exists>k<n. u = solve ((exchange_step solve locate ^^ k) ext)
     \<and> locate u ((exchange_step solve locate ^^ k) ext) = (exchange_step solve locate ^^ k) ext
     \<and> (\<forall>j<k. (exchange_step solve locate ^^ Suc j) ext \<noteq> (exchange_step solve locate ^^ j) ext)"
  using assms
proof (induction n arbitrary: ext t)
  case 0
  then show ?case by simp
next
  case (Suc n)
  show ?case
  proof (cases "locate (solve ext) ext = ext")
    case True
    with Suc.prems show ?thesis by (auto simp: Let_def intro!: exI [of _ 0])
  next
    case False
    with Suc.prems have "exchange_loop solve locate n (exchange_step solve locate ext) (solve ext)
        = (u, True)"
      by (simp add: Let_def exchange_step_def)
    from Suc.IH [OF this] obtain k where k: "k < n"
      "u = solve ((exchange_step solve locate ^^ Suc k) ext)"
      "locate u ((exchange_step solve locate ^^ Suc k) ext)
         = (exchange_step solve locate ^^ Suc k) ext"
      "\<forall>j<k. (exchange_step solve locate ^^ Suc (Suc j)) ext
         \<noteq> (exchange_step solve locate ^^ Suc j) ext"
      by (auto simp: funpow_swap1)
    from k(4) False have "\<forall>j<Suc k. (exchange_step solve locate ^^ Suc j) ext
         \<noteq> (exchange_step solve locate ^^ j) ext"
      by (auto simp: less_Suc_eq_0_disj exchange_step_def)
    with k(1-3) show ?thesis by (intro exI [of _ "Suc k"]) simp
  qed
qed

lemma exchange_loop_exhausted:
  assumes "exchange_loop solve locate n ext t = (u, False)"
  shows "(\<forall>j<n. (exchange_step solve locate ^^ Suc j) ext \<noteq> (exchange_step solve locate ^^ j) ext)
     \<and> u = (if n = 0 then t else solve ((exchange_step solve locate ^^ (n - 1)) ext))"
  using assms
proof (induction n arbitrary: ext t)
  case 0
  then show ?case by simp
next
  case (Suc n)
  let ?step = "exchange_step solve locate"
  from Suc.prems have ne: "?step ext \<noteq> ext"
    by (auto simp: Let_def exchange_step_def split: if_splits)
  with Suc.prems have "exchange_loop solve locate n (?step ext) (solve ext) = (u, False)"
    by (simp add: Let_def exchange_step_def)
  from Suc.IH [OF this] have "\<forall>j<n. (?step ^^ Suc (Suc j)) ext \<noteq> (?step ^^ Suc j) ext"
    and "u = solve ((?step ^^ n) ext)"
    by (cases n; simp add: funpow_swap1)+
  with ne show ?case by (auto simp: less_Suc_eq_0_disj)
qed

lemma exchange_loop_invariant:
  assumes "P ext" "\<And>e. P e \<Longrightarrow> P (locate (solve e) e)" "0 < n"
  shows "\<exists>e. P e \<and> fst (exchange_loop solve locate n ext t) = solve e
     \<and> (snd (exchange_loop solve locate n ext t) \<longrightarrow> locate (solve e) e = e)"
  using assms(1,3)
proof (induction n arbitrary: ext t)
  case 0
  then show ?case by simp
next
  case (Suc n)
  show ?case
  proof (cases "locate (solve ext) ext = ext \<or> n = 0")
    case True
    with Suc.prems show ?thesis by (auto simp: Let_def)
  next
    case False
    with Suc.IH [OF assms(2) [OF Suc.prems(1)], of "solve ext"] show ?thesis
      by (simp add: Let_def)
  qed
qed

section \<open>Lemmas on the linear system\<close>

lemma decreasing_neq: "decreasing n xs \<Longrightarrow> i < n \<Longrightarrow> j < n \<Longrightarrow> i \<noteq> j \<Longrightarrow> xs ! i \<noteq> xs ! j"
  unfolding decreasing_def by (metis less_irrefl linorder_neqE_nat)

lemma decreasing_less: "decreasing (Suc n) xs \<Longrightarrow> decreasing n xs"
  by (simp add: decreasing_def)

lemma others_props [simp]: "set (others n i) = {..<n} - {i}" "distinct (others n i)"
  by (auto simp: others_def)

lemma prod_others: "(\<Prod>m\<leftarrow>others n i. f m) = prod f ({..<n} - {i})"
  using prod.distinct_set_conv_list [of "others n i" f] by simp

lemma bary_prod: "bary n xs i = 1 / (\<Prod>m\<in>{..<n} - {i}. xs ! i - xs ! m)"
  by (simp add: bary_def prod_others)

lemma horner_basis_poly:
  "horner (basis_poly n xs j) x = (\<Prod>m\<in>{..<n} - {j}. x - xs ! m)"
proof -
  have "horner (foldr (\<lambda>m. pmul_linear (xs ! m)) ms [1]) x = (\<Prod>m\<leftarrow>ms. x - xs ! m)" for ms
    by (induction ms) simp_all
  then show ?thesis by (simp add: basis_poly_def prod_others)
qed

lemma length_basis_poly: "j < n \<Longrightarrow> length (basis_poly n xs j) = n"
proof -
  have "length (foldr (\<lambda>m. pmul_linear (xs ! m)) ms [1]) = Suc (length ms)" for ms
    by (induction ms) simp_all
  moreover assume "j < n"
  then have "length (others n j) = n - 1"
    using distinct_card [of "others n j"] by simp
  ultimately show ?thesis using \<open>j < n\<close> by (simp add: basis_poly_def)
qed

lemma horner_lagrange:
  "horner (lagrange n xs cs) x
     = (\<Sum>j<n. cs ! j * bary n xs j * (\<Prod>m\<in>{..<n} - {j}. x - xs ! m))"
  by (simp add: lagrange_def horner_sum_list comp_def horner_basis_poly
      interv_sum_list_conv_sum_set_nat atLeast0LessThan)

lemma length_lagrange: "0 < n \<Longrightarrow> length (lagrange n xs cs) = n"
  unfolding lagrange_def by (rule length_foldr_padd) (auto simp: length_basis_poly)

lemma prod_nodes_nonzero:
  assumes "decreasing n xs" "i < n"
  shows "(\<Prod>m\<in>{..<n} - {i}. xs ! i - xs ! m) \<noteq> 0"
  using assms by (auto dest: decreasing_neq)

lemma lagrange_interpolates:
  assumes "decreasing n xs" "i < n"
  shows "horner (lagrange n xs cs) (xs ! i) = cs ! i"
proof -
  have "cs ! j * bary n xs j * (\<Prod>m\<in>{..<n} - {j}. xs ! i - xs ! m)
      = (if j = i then cs ! i else 0)" if "j < n" for j
  proof (cases "j = i")
    case True
    with prod_nodes_nonzero [OF assms] show ?thesis by (simp add: bary_prod)
  next
    case False
    with assms(2) have "\<exists>m\<in>{..<n} - {j}. xs ! i - xs ! m = 0" by auto
    then have "(\<Prod>m\<in>{..<n} - {j}. xs ! i - xs ! m) = 0" by simp
    with False show ?thesis by simp
  qed
  then have "horner (lagrange n xs cs) (xs ! i) = (\<Sum>j<n. if j = i then cs ! i else 0)"
    unfolding horner_lagrange by (intro sum.cong) simp_all
  with assms(2) show ?thesis by simp
qed

lemma bary_Suc:
  assumes "decreasing (Suc n) xs" "j < n"
  shows "bary n xs j = bary (Suc n) xs j * (xs ! j - xs ! n)"
proof -
  from assms(2) have "{..<Suc n} - {j} = insert n ({..<n} - {j})" by auto
  then have "(\<Prod>m\<in>{..<Suc n} - {j}. xs ! j - xs ! m)
      = (xs ! j - xs ! n) * (\<Prod>m\<in>{..<n} - {j}. xs ! j - xs ! m)"
    by simp
  moreover from assms have "xs ! j \<noteq> xs ! n" by (intro decreasing_neq [of "Suc n"]) simp_all
  ultimately show ?thesis by (simp add: bary_prod)
qed

lemma lagrange_next:
  assumes d: "decreasing (Suc n) xs"
  shows "horner (lagrange n xs cs) (xs ! n)
     = cs ! n - (\<Prod>m<n. xs ! n - xs ! m) * (\<Sum>j<Suc n. bary (Suc n) xs j * cs ! j)"
proof -
  define Q where "Q = (\<Prod>m<n. xs ! n - xs ! m)"
  from d have "xs ! n \<noteq> xs ! m" if "m < n" for m
    using that by (intro decreasing_neq [of "Suc n"]) simp_all
  then have Q: "Q \<noteq> 0" by (simp add: Q_def)
  have last: "bary (Suc n) xs n = 1 / Q"
    by (simp add: bary_prod Q_def lessThan_Suc)
  have "cs ! j * bary n xs j * (\<Prod>m\<in>{..<n} - {j}. xs ! n - xs ! m)
      = - Q * (bary (Suc n) xs j * cs ! j)" if "j < n" for j
  proof -
    from that have q: "Q = (xs ! n - xs ! j) * (\<Prod>m\<in>{..<n} - {j}. xs ! n - xs ! m)"
      unfolding Q_def by (intro prod.remove) simp_all
    show ?thesis unfolding bary_Suc [OF d that] q by (simp add: algebra_simps)
  qed
  then have "horner (lagrange n xs cs) (xs ! n) = (\<Sum>j<n. - Q * (bary (Suc n) xs j * cs ! j))"
    unfolding horner_lagrange by (intro sum.cong) simp_all
  also have "\<dots> = - Q * (\<Sum>j<n. bary (Suc n) xs j * cs ! j)"
    by (simp only: sum_distrib_left)
  finally show ?thesis using Q by (simp add: last algebra_simps flip: Q_def)
qed

lemma lagrange_extends:
  assumes d: "decreasing (Suc n) xs" and z: "(\<Sum>j<Suc n. bary (Suc n) xs j * cs ! j) = 0"
  shows "horner (lagrange n xs cs) (xs ! n) = cs ! n"
  by (simp only: lagrange_next [OF d] z)

lemma bary_sign:
  assumes "decreasing n xs" "i < n"
  shows "0 < bary n xs i * (- 1) ^ i"
proof -
  let ?f = "\<lambda>m. xs ! i - xs ! m"
  from assms(2) have split: "{..<n} - {i} = {..<i} \<union> {i<..<n}" by auto
  have lo: "prod ?f {..<i} = (- 1) ^ i * (\<Prod>m<i. xs ! m - xs ! i)"
  proof -
    have "prod ?f {..<i} = (\<Prod>m<i. - 1 * (xs ! m - xs ! i))"
      by (intro prod.cong) simp_all
    then show ?thesis by (simp only: prod.distrib prod_constant) simp
  qed
  from assms have "0 < (\<Prod>m<i. xs ! m - xs ! i)"
    by (intro prod_pos) (simp add: decreasing_def)
  moreover from assms have "0 < prod ?f {i<..<n}"
    by (intro prod_pos) (simp add: decreasing_def)
  ultimately have "0 < (\<Prod>m<i. xs ! m - xs ! i) * prod ?f {i<..<n}" by simp
  moreover have "bary n xs i * (- 1) ^ i
      = 1 / ((\<Prod>m<i. xs ! m - xs ! i) * prod ?f {i<..<n})"
    unfolding bary_prod split
    by (subst prod.union_disjoint) (auto simp: lo power2_eq_1_iff field_simps
        simp flip: power_mult_distrib)
  ultimately show ?thesis by simp
qed

lemma decreasing_card:
  assumes "decreasing n xs"
  shows "card ((\<lambda>i. xs ! i) ` {..<n}) = n"
proof -
  from assms have "inj_on (\<lambda>i. xs ! i) {..<n}"
    by (auto simp: inj_on_def dest: decreasing_neq)
  then show ?thesis by (simp add: card_image)
qed

lemma bary_annihilates:
  assumes d: "decreasing (Suc n) xs" and p: "length p \<le> n"
  shows "(\<Sum>j<Suc n. bary (Suc n) xs j * horner p (xs ! j)) = 0"
proof -
  define cs where "cs = map (\<lambda>j. horner p (xs ! j)) [0..<Suc n]"
  have cs: "cs ! j = horner p (xs ! j)" if "j < Suc n" for j
    using that by (simp add: cs_def del: upt_Suc)
  define Q where "Q = (\<Prod>m<n. xs ! n - xs ! m)"
  from d have "xs ! n \<noteq> xs ! m" if "m < n" for m
    using that by (intro decreasing_neq [of "Suc n"]) simp_all
  then have Q: "Q \<noteq> 0" by (simp add: Q_def)
  let ?A = "(\<lambda>i. xs ! i) ` {..<n}"
  have "horner (lagrange n xs cs) (xs ! n) = horner p (xs ! n)"
  proof (cases "n = 0")
    case True
    with p show ?thesis by (simp add: lagrange_def)
  next
    case False
    from decreasing_card [OF decreasing_less [OF d]] have c: "card ?A = n" .
    show ?thesis
    proof (rule horner_agree [of ?A])
      show "finite ?A" by simp
      from False show "length (lagrange n xs cs) \<le> card ?A" by (simp add: c length_lagrange)
      from p show "length p \<le> card ?A" by (simp add: c)
      fix y
      assume "y \<in> ?A"
      then obtain i where "i < n" "y = xs ! i" by auto
      with lagrange_interpolates [OF decreasing_less [OF d], of i cs] cs [of i]
      show "horner (lagrange n xs cs) y = horner p y" by simp
    qed
  qed
  with lagrange_next [OF d, of cs] Q
  have "(\<Sum>j<Suc n. bary (Suc n) xs j * cs ! j) = 0"
    by (simp add: cs flip: Q_def)
  moreover have "(\<Sum>j<Suc n. bary (Suc n) xs j * cs ! j)
      = (\<Sum>j<Suc n. bary (Suc n) xs j * horner p (xs ! j))"
    by (intro sum.cong) (simp_all add: cs)
  ultimately show ?thesis by (simp only:)
qed

lemma deviation_balances:
  assumes "decreasing (length xs) xs" "xs \<noteq> []"
  shows "(\<Sum>i<length xs. bary (length xs) xs i * (ds ! i - (- 1) ^ i * deviation xs ds)) = 0"
proof -
  let ?n = "length xs"
  from assms have "0 < (\<Sum>i<?n. bary ?n xs i * (- 1) ^ i)"
    by (intro sum_pos bary_sign) (simp_all add: lessThan_empty_iff)
  then have "deviation xs ds * (\<Sum>i<?n. bary ?n xs i * (- 1) ^ i)
      = (\<Sum>i<?n. bary ?n xs i * ds ! i)"
    by (simp add: deviation_def)
  then show ?thesis
    by (simp add: algebra_simps sum_subtractf sum_distrib_left mult.commute)
qed

lemma deviation_lower_bound:
  assumes d: "decreasing (length xs) xs" and p: "length p < length xs"
  shows "\<exists>i<length xs. \<bar>deviation xs ds\<bar> \<le> \<bar>ds ! i - horner p (xs ! i)\<bar>"
proof (rule ccontr)
  let ?N = "length xs"
  let ?w = "\<lambda>i. bary ?N xs i * (- 1) ^ i"
  let ?e = "\<lambda>i. ds ! i - horner p (xs ! i)"
  assume "\<not> ?thesis"
  then have small: "\<bar>?e i\<bar> < \<bar>deviation xs ds\<bar>" if "i < ?N" for i
    using that by (auto simp: not_le)
  from p obtain n where n: "?N = Suc n" "length p \<le> n" by (cases ?N) auto
  from d have w: "0 < ?w i" if "i < ?N" for i using that by (rule bary_sign)
  then have S: "0 < (\<Sum>i<?N. ?w i)"
    using n by (intro sum_pos) (simp_all add: lessThan_empty_iff)
  from bary_annihilates [of n xs p] d n
  have "(\<Sum>i<?N. bary ?N xs i * horner p (xs ! i)) = 0" by simp
  then have "(\<Sum>i<?N. bary ?N xs i * ?e i) = (\<Sum>i<?N. bary ?N xs i * ds ! i)"
    by (simp add: algebra_simps sum_subtractf)
  also from S have "\<dots> = deviation xs ds * (\<Sum>i<?N. ?w i)"
    by (simp add: deviation_def)
  finally have "\<bar>deviation xs ds\<bar> * (\<Sum>i<?N. ?w i) = \<bar>\<Sum>i<?N. bary ?N xs i * ?e i\<bar>"
    using S by (simp add: abs_mult)
  also have "\<dots> \<le> (\<Sum>i<?N. \<bar>bary ?N xs i * ?e i\<bar>)" by (rule sum_abs)
  also have "\<dots> = (\<Sum>i<?N. ?w i * \<bar>?e i\<bar>)"
  proof (rule sum.cong [OF refl])
    fix i
    assume "i \<in> {..<?N}"
    with w [of i] have "\<bar>bary ?N xs i\<bar> = ?w i"
      by (cases "even i") (simp_all add: abs_if)
    then show "\<bar>bary ?N xs i * ?e i\<bar> = ?w i * \<bar>?e i\<bar>" by (simp add: abs_mult)
  qed
  also have "\<dots> < (\<Sum>i<?N. ?w i * \<bar>deviation xs ds\<bar>)"
    using n w small
    by (intro sum_strict_mono mult_strict_left_mono) (simp_all add: lessThan_empty_iff)
  also have "\<dots> = \<bar>deviation xs ds\<bar> * (\<Sum>i<?N. ?w i)"
    by (simp add: sum_distrib_left mult.commute)
  finally show False by simp
qed

lemma nodes_decreasing:
  assumes "sorted_wrt (<) ext" "list_all (\<lambda>f. 0 \<le> f \<and> f \<le> nyq) ext" "0 < nyq"
  shows "decreasing (length ext) (nodes nyq ext)"
  unfolding decreasing_def
proof (intro allI impI)
  fix i j
  assume ij: "i < length ext" "j < length ext" "i < j"
  with assms(1) have "ext ! i < ext ! j" by (simp add: sorted_wrt_nth_less)
  moreover from assms(2) ij have "0 \<le> ext ! i" "ext ! j \<le> nyq"
    by (simp_all add: list_all_length)
  ultimately have "cos (pi * ext ! j / nyq) < cos (pi * ext ! i / nyq)"
    using assms(3)
    by (intro cos_monotone_0_pi) (simp_all add: divide_strict_right_mono pos_divide_le_eq)
  with ij show "nodes nyq ext ! j < nodes nyq ext ! i" by (simp add: nodes_def)
qed

lemma solve_system_equal_error:
  assumes ext: "sorted_wrt (<) ext" "list_all (\<lambda>f. 0 \<le> f \<and> f \<le> nyq) ext" "0 < nyq"
    and len: "2 \<le> length ext" and i: "i < length ext"
  shows "desired_gain (band_pairs bands) gains (ext ! i)
       - cos_response (fst (solve_system nyq bands gains ext)) (pi * ext ! i / nyq)
     = (- 1) ^ i * snd (solve_system nyq bands gains ext)"
proof -
  define n where "n = length ext - 1"
  define xs where "xs = nodes nyq ext"
  define ds where "ds = map (desired_gain (band_pairs bands) gains) ext"
  define cs where "cs = map (\<lambda>i. ds ! i - (- 1) ^ i * deviation xs ds) [0..<length ext]"
  from len have Suc: "length ext = Suc n" and lx: "length xs = Suc n"
    by (simp_all add: n_def xs_def nodes_def)
  from nodes_decreasing [OF ext] have d: "decreasing (Suc n) xs" by (simp add: xs_def Suc)
  have cs: "cs ! j = ds ! j - (- 1) ^ j * deviation xs ds" if "j < Suc n" for j
    using that by (simp add: cs_def Suc del: upt_Suc)
  from d lx have "decreasing (length xs) xs" "xs \<noteq> []" by auto
  from deviation_balances [OF this, of ds]
  have "(\<Sum>j<Suc n. bary (Suc n) xs j * (ds ! j - (- 1) ^ j * deviation xs ds)) = 0"
    by (simp only: lx)
  moreover have "(\<Sum>j<Suc n. bary (Suc n) xs j * cs ! j)
      = (\<Sum>j<Suc n. bary (Suc n) xs j * (ds ! j - (- 1) ^ j * deviation xs ds))"
    by (intro sum.cong) (simp_all add: cs)
  ultimately have "(\<Sum>j<Suc n. bary (Suc n) xs j * cs ! j) = 0" by (simp only:)
  from lagrange_extends [OF d this] lagrange_interpolates [OF decreasing_less [OF d]] i
  have "horner (lagrange n xs cs) (xs ! i) = cs ! i"
    by (cases "i = n") (simp_all add: Suc)
  moreover have sol: "solve_system nyq bands gains ext
      = (cosine_coeffs (lagrange n xs cs), deviation xs ds)"
    by (simp add: solve_system_def Let_def n_def xs_def ds_def cs_def)
  moreover from i have xi: "xs ! i = cos (pi * ext ! i / nyq)"
    and di: "ds ! i = desired_gain (band_pairs bands) gains (ext ! i)"
    by (simp_all add: xs_def ds_def nodes_def)
  ultimately have "cos_response (fst (solve_system nyq bands gains ext)) (pi * ext ! i / nyq)
      = cs ! i"
    by (simp add: cos_response_cosine_coeffs)
  with i show ?thesis by (simp add: sol cs Suc di)
qed

lemma snd_solve_system:
  "snd (solve_system nyq bands gains ext)
     = deviation (nodes nyq ext) (map (desired_gain (band_pairs bands) gains) ext)"
  by (simp add: solve_system_def Let_def)

lemma solve_system_optimal:
  assumes ext: "sorted_wrt (<) ext" "list_all (\<lambda>f. 0 \<le> f \<and> f \<le> nyq) ext" "0 < nyq"
    and a: "length a < length ext"
  shows "\<exists>i<length ext. \<bar>snd (solve_system nyq bands gains ext)\<bar>
     \<le> \<bar>desired_gain (band_pairs bands) gains (ext ! i) - cos_response a (pi * ext ! i / nyq)\<bar>"
proof -
  from nodes_decreasing [OF ext] have "decreasing (length (nodes nyq ext)) (nodes nyq ext)"
    by (simp add: nodes_def)
  moreover from a length_monomial_coeffs [of a]
  have "length (monomial_coeffs a) < length (nodes nyq ext)" by (simp add: nodes_def)
  ultimately obtain i where "i < length (nodes nyq ext)"
    "\<bar>deviation (nodes nyq ext) (map (desired_gain (band_pairs bands) gains) ext)\<bar>
      \<le> \<bar>map (desired_gain (band_pairs bands) gains) ext ! i
          - horner (monomial_coeffs a) (nodes nyq ext ! i)\<bar>"
    using deviation_lower_bound by blast
  then show ?thesis
    by (intro exI [of _ i]) (simp add: snd_solve_system nodes_def horner_monomial_coeffs)
qed

lemma length_solve_system:
  "2 \<le> length ext \<Longrightarrow> length (fst (solve_system nyq bands gains ext)) = length ext - 1"
  by (simp add: solve_system_def Let_def length_lagrange)

section \<open>Lemmas on the design\<close>

lemma equiripple_result:
  assumes "candidates n nyq (seed n bands)"
    and "\<And>t e. candidates n nyq e \<Longrightarrow> candidates n nyq (locate t e)"
  shows "\<exists>ext. candidates n nyq ext
     \<and> fst (equiripple locate n bands gains nyq)
        = cosine_taps (fst (solve_system nyq bands gains ext))
     \<and> (snd (equiripple locate n bands gains nyq)
        \<longrightarrow> locate (solve_system nyq bands gains ext) ext = ext)"
proof -
  have "0 < max_iter" by (simp add: max_iter_def)
  with assms exchange_loop_invariant [where P = "candidates n nyq" and locate = locate
      and solve = "solve_system nyq bands gains" and ext = "seed n bands" and n = max_iter
      and t = "solve_system nyq bands gains (seed n bands)"]
  obtain e where "candidates n nyq e"
    "fst (exchange_loop (solve_system nyq bands gains) locate max_iter (seed n bands)
      (solve_system nyq bands gains (seed n bands))) = solve_system nyq bands gains e"
    "snd (exchange_loop (solve_system nyq bands gains) locate max_iter (seed n bands)
      (solve_system nyq bands gains (seed n bands)))
      \<longrightarrow> locate (solve_system nyq bands gains e) e = e"
    by blast
  then show ?thesis by (auto simp: equiripple_def Let_def split_beta)
qed

lemma candidates_taps:
  assumes "candidates n nyq ext" "0 < n" "0 < nyq"
  shows "length (cosine_taps (fst (solve_system nyq bands gains ext))) = 2 * ((n + 1) div 2) - 1"
    and "\<forall>i<length ext. desired_gain (band_pairs bands) gains (ext ! i)
        - amplitude (cosine_taps (fst (solve_system nyq bands gains ext))) (pi * ext ! i / nyq)
      = (- 1) ^ i * snd (solve_system nyq bands gains ext)"
proof -
  from assms(1,2) have len: "2 \<le> length ext" "length ext - 1 = (n + 1) div 2"
    by (simp_all add: candidates_def)
  then have a: "length (fst (solve_system nyq bands gains ext)) = (n + 1) div 2"
    by (simp add: length_solve_system)
  then show "length (cosine_taps (fst (solve_system nyq bands gains ext))) = 2 * ((n + 1) div 2) - 1"
    by simp
  from a assms(2) have "fst (solve_system nyq bands gains ext) \<noteq> []" by auto
  with assms(1,3) len(1) show "\<forall>i<length ext. desired_gain (band_pairs bands) gains (ext ! i)
        - amplitude (cosine_taps (fst (solve_system nyq bands gains ext))) (pi * ext ! i / nyq)
      = (- 1) ^ i * snd (solve_system nyq bands gains ext)"
    by (simp add: amplitude_cosine_taps solve_system_equal_error candidates_def)
qed

lemma exchange_loop_stops:
  assumes "0 < n"
  shows "\<exists>k<n. fst (exchange_loop solve locate n ext t)
       = solve ((exchange_step solve locate ^^ k) ext)
     \<and> (\<forall>j<k. (exchange_step solve locate ^^ Suc j) ext \<noteq> (exchange_step solve locate ^^ j) ext)
     \<and> (snd (exchange_loop solve locate n ext t)
        \<longleftrightarrow> (exchange_step solve locate ^^ Suc k) ext = (exchange_step solve locate ^^ k) ext)
     \<and> (snd (exchange_loop solve locate n ext t) \<or> k = n - 1)"
proof (cases "snd (exchange_loop solve locate n ext t)")
  case True
  then have "exchange_loop solve locate n ext t = (fst (exchange_loop solve locate n ext t), True)"
    by (simp add: prod_eq_iff)
  from exchange_loop_converged [OF this] True show ?thesis
    by (auto simp: exchange_step_def)
next
  case False
  then have "exchange_loop solve locate n ext t = (fst (exchange_loop solve locate n ext t), False)"
    by (simp add: prod_eq_iff)
  from exchange_loop_exhausted [OF this] assms have
    "\<forall>j<n. (exchange_step solve locate ^^ Suc j) ext \<noteq> (exchange_step solve locate ^^ j) ext"
    "fst (exchange_loop solve locate n ext t) = solve ((exchange_step solve locate ^^ (n - 1)) ext)"
    by simp_all
  moreover from assms obtain k where "n = Suc k" by (cases n) auto
  ultimately show ?thesis using False
    by (intro exI [of _ k]) (simp del: funpow.simps)
qed

section \<open>The script's equiripple design\<close>

lemma script_bands:
  assumes "valid_spec c" "Fs c = 4"
  shows "sorted [0, F_pass c / 2, F_stop c / 2, 1]"
    and "0 < total_width (band_pairs [0, F_pass c / 2, F_stop c / 2, 1])"
  using assms by (simp_all add: valid_spec_def)

lemma h_remez_equiripple:
  assumes "valid_spec c" "Fs c = 4" "M_kaiser c = Inr m"
  shows "h_remez ex c
     = Inr (fst (ex (nat m) [0, F_pass c / 2, F_stop c / 2, 1] desired_amps_remez 1))"
  using assms by (simp add: h_remez_eq valid_spec_def)

lemma script_seed:
  assumes "valid_spec c" "Fs c = 4" "0 < n"
  shows "candidates n 1 (seed n [0, F_pass c / 2, F_stop c / 2, 1])"
  using script_bands [OF assms(1,2)] assms(3) by (intro seed_candidates) simp_all

lemma length_candidates_taps:
  "0 < m \<Longrightarrow> int (2 * ((nat m + 1) div 2) - 1) = (if odd m then m else m - 1)"
  by (cases "odd m") (auto elim!: oddE evenE simp: nat_add_distrib nat_mult_distrib)

end
