(* ===== verification/Extremal_Search.thy ===== *)
theory Extremal_Search
  imports Equiripple
begin

text \<open>
  The third step of the exchange iteration of the EquirippleDesigner, from its description
  in the specification: the search for new candidate frequencies. The error of the trial
  filter is evaluated on a dense grid over the bands (\<open>dense_grid\<close>, with \<open>grid_density\<close>
  points for each coefficient); \<open>peaks\<close> keeps the grid points where the magnitude of the
  error is a local maximum; \<open>alternate\<close> keeps, of neighbouring peaks with errors of the same
  sign, the one with the larger error; \<open>trim\<close> drops peaks from the two ends, the smaller
  first, until as many are left as candidates are needed. \<open>locate\<close> takes the result for
  the new candidates, and keeps the old ones when the search finds too few peaks. The
  specification leaves the tie-breaks open; the ones chosen here are: a peak is at least
  as large as its left neighbour and larger than its right neighbour, and of two equal
  errors the one at the lower frequency is kept.

  \<open>parks_mcclellan\<close> is the design with this search, an \<open>exchange\<close> in the sense of the
  theory \<open>Band_Designs\<close>.

  The lemmas show that every step selects from the list it is given and keeps its order,
  that the selected frequencies are local maxima of the magnitude of the error on the
  grid (\<open>peak_at\<close>), that the errors there alternate in sign, and that the search
  returns candidates (\<open>candidates\<close>) whenever it is given candidates; with the lemmas of the
  theory \<open>Equiripple\<close> this gives the properties of the script's equiripple design,
  without an assumption on the search. They are stated at the round the loop ends with:
  \<open>candidates_at n bands gains nyq k\<close> is the list of candidates at the start of round
  \<open>k\<close>, and the last round is the first one that leaves them unchanged, or round 249.
\<close>

section \<open>The search\<close>

definition grid_density :: nat where
  "grid_density = 16"

definition dense_grid :: "nat \<Rightarrow> real list \<Rightarrow> real list" where
  "dense_grid n bands = spaced bands (grid_density * ((n + 1) div 2))"

definition error_at :: "real \<Rightarrow> real list \<Rightarrow> real list \<Rightarrow> real list \<Rightarrow> real \<Rightarrow> real" where
  "error_at nyq bands gains a f
     = desired_gain (band_pairs bands) gains f - cos_response a (pi * f / nyq)"

fun peaks :: "(real \<Rightarrow> real) \<Rightarrow> real option \<Rightarrow> real list \<Rightarrow> real list" where
  "peaks m prev [] = []"
| "peaks m prev [x] = (if (case prev of None \<Rightarrow> True | Some p \<Rightarrow> m p \<le> m x) then [x] else [])"
| "peaks m prev (x # y # ys) =
     (if (case prev of None \<Rightarrow> True | Some p \<Rightarrow> m p \<le> m x) \<and> m y < m x
      then x # peaks m (Some x) (y # ys) else peaks m (Some x) (y # ys))"

fun alternate :: "(real \<Rightarrow> real) \<Rightarrow> real list \<Rightarrow> real list" where
  "alternate e (x # y # ys) =
     (if (0 \<le> e x) = (0 \<le> e y)
      then (if \<bar>e x\<bar> < \<bar>e y\<bar> then alternate e (y # ys) else alternate e (x # ys))
      else x # alternate e (y # ys))"
| "alternate e xs = xs"

function trim :: "(real \<Rightarrow> real) \<Rightarrow> nat \<Rightarrow> real list \<Rightarrow> real list" where
  "trim e k xs =
     (if length xs \<le> k then xs
      else if \<bar>e (hd xs)\<bar> < \<bar>e (last xs)\<bar> then trim e k (tl xs)
      else trim e k (butlast xs))"
  by auto
termination
  by (relation "measure (\<lambda>(e, k, xs). length xs)") auto

definition locate ::
  "nat \<Rightarrow> real list \<Rightarrow> real list \<Rightarrow> real \<Rightarrow> real list \<times> real \<Rightarrow> real list \<Rightarrow> real list" where
  "locate n bands gains nyq t ext =
     (let e = error_at nyq bands gains (fst t);
          xs = trim e ((n + 3) div 2) (alternate e (peaks (\<lambda>f. \<bar>e f\<bar>) None (dense_grid n bands)))
      in if length xs = (n + 3) div 2 then xs else ext)"

definition parks_mcclellan :: exchange where
  "parks_mcclellan n bands gains nyq = equiripple (locate n bands gains nyq) n bands gains nyq"

section \<open>Predicates of the lemmas\<close>

definition alternating :: "(real \<Rightarrow> real) \<Rightarrow> real list \<Rightarrow> bool" where
  "alternating e xs \<longleftrightarrow> successively (\<lambda>x y. (0 \<le> e x) \<noteq> (0 \<le> e y)) xs"

definition candidates_at :: "nat \<Rightarrow> real list \<Rightarrow> real list \<Rightarrow> real \<Rightarrow> nat \<Rightarrow> real list" where
  "candidates_at n bands gains nyq k
     = (exchange_step (solve_system nyq bands gains) (locate n bands gains nyq) ^^ k) (seed n bands)"

definition peak_at :: "(real \<Rightarrow> real) \<Rightarrow> real option \<Rightarrow> real list \<Rightarrow> nat \<Rightarrow> bool" where
  "peak_at m prev xs i \<longleftrightarrow>
     i < length xs
     \<and> (if i = 0 then (case prev of None \<Rightarrow> True | Some p \<Rightarrow> m p \<le> m (xs ! i))
         else m (xs ! (i - 1)) \<le> m (xs ! i))
     \<and> (Suc i < length xs \<longrightarrow> m (xs ! Suc i) < m (xs ! i))"

definition selection :: "real list \<Rightarrow> real list \<Rightarrow> bool" where
  "selection xs ys \<longleftrightarrow> set xs \<subseteq> set ys \<and> (sorted_wrt (<) ys \<longrightarrow> sorted_wrt (<) xs)"

section \<open>Selections\<close>

lemmas trim_simps = trim.simps

declare trim.simps [simp del]

lemma selection_refl [simp]: "selection xs xs"
  by (simp add: selection_def)

lemma selection_trans: "selection xs ys \<Longrightarrow> selection ys zs \<Longrightarrow> selection xs zs"
  by (auto simp: selection_def)

lemma selection_Cons: "selection xs ys \<Longrightarrow> selection (x # xs) (x # ys)"
  by (auto simp: selection_def)

lemma selection_drop: "selection xs ys \<Longrightarrow> selection xs (y # ys)"
  by (auto simp: selection_def)

lemma selection_skip: "selection xs (x # ys) \<Longrightarrow> selection xs (x # y # ys)"
  by (auto simp: selection_def)

lemma selection_tl: "selection (tl xs) xs"
  by (cases xs) (auto simp: selection_def)

lemma selection_butlast: "selection (butlast xs) xs"
proof (cases "xs = []")
  case True
  then show ?thesis by simp
next
  case False
  then have "xs = butlast xs @ [last xs]" by simp
  then have "sorted_wrt (<) xs \<Longrightarrow> sorted_wrt (<) (butlast xs)"
    by (metis sorted_wrt_append)
  then show ?thesis by (auto simp: selection_def dest: in_set_butlastD)
qed

lemma selection_peaks: "selection (peaks m prev xs) xs"
  by (induction m prev xs rule: peaks.induct)
    (auto intro: selection_Cons selection_drop)

lemma selection_alternate: "selection (alternate e xs) xs"
  by (induction e xs rule: alternate.induct)
    (auto intro: selection_Cons selection_drop selection_skip)

lemma selection_trim: "selection (trim e k xs) xs"
proof (induction e k xs rule: trim.induct)
  case (1 e k xs)
  show ?case
  proof (cases "length xs \<le> k")
    case True
    then show ?thesis by (simp add: trim_simps)
  next
    case False
    with 1 selection_tl [of xs] selection_butlast [of xs] show ?thesis
      by (subst trim_simps) (auto intro: selection_trans)
  qed
qed

section \<open>Peaks\<close>

lemma peak_at_Cons:
  "peak_at m (Some x) xs i \<Longrightarrow> peak_at m prev (x # xs) (Suc i)"
  by (cases i) (auto simp: peak_at_def)

lemma peaks_are_peaks:
  "x \<in> set (peaks m prev xs) \<Longrightarrow> \<exists>i. peak_at m prev xs i \<and> xs ! i = x"
proof (induction m prev xs rule: peaks.induct)
  case (1 m prev)
  then show ?case by simp
next
  case (2 m prev y)
  then show ?case
    by (auto simp: peak_at_def split: if_splits option.splits intro!: exI [of _ 0])
next
  case (3 m prev y z zs)
  show ?case
  proof (cases "x \<in> set (peaks m (Some y) (z # zs))")
    case True
    with 3 obtain i where "peak_at m (Some y) (z # zs) i" "(z # zs) ! i = x" by blast
    then show ?thesis by (auto dest: peak_at_Cons intro!: exI [of _ "Suc i"])
  next
    case False
    with "3.prems" have "x = y" "(case prev of None \<Rightarrow> True | Some p \<Rightarrow> m p \<le> m y)" "m z < m y"
      by (auto split: if_splits)
    then show ?thesis
      by (auto simp: peak_at_def split: option.splits intro!: exI [of _ 0])
  qed
qed

section \<open>Alternation\<close>

lemma alternate_hd:
  "alternate e (x # xs) \<noteq> [] \<and> (0 \<le> e (hd (alternate e (x # xs)))) = (0 \<le> e x)"
  by (induction e "x # xs" arbitrary: x xs rule: alternate.induct) auto

lemma alternating_alternate: "alternating e (alternate e xs)"
  unfolding alternating_def
proof (induction e xs rule: alternate.induct)
  case (1 e x y ys)
  from alternate_hd [of e y ys] show ?case
    using 1 by (auto simp: successively_Cons)
qed simp_all

lemma alternating_tl: "alternating e xs \<Longrightarrow> alternating e (tl xs)"
  by (cases xs) (auto simp: alternating_def successively_Cons)

lemma alternating_butlast: "alternating e xs \<Longrightarrow> alternating e (butlast xs)"
  unfolding alternating_def
  by (induction xs rule: induct_list012) (auto simp: successively_Cons)

lemma alternating_trim: "alternating e xs \<Longrightarrow> alternating e (trim e k xs)"
proof (induction e k xs rule: trim.induct)
  case (1 e k xs)
  show ?case
  proof (cases "length xs \<le> k")
    case True
    with 1 show ?thesis by (simp add: trim_simps)
  next
    case False
    with 1 alternating_tl [of e xs] alternating_butlast [of e xs] show ?thesis
      by (subst trim_simps) auto
  qed
qed

lemma length_trim: "k \<le> length xs \<Longrightarrow> length (trim e k xs) = k"
proof (induction e k xs rule: trim.induct)
  case (1 e k xs)
  show ?case
  proof (cases "length xs \<le> k")
    case True
    with 1 show ?thesis by (simp add: trim_simps)
  next
    case False
    with 1 show ?thesis by (subst trim_simps) auto
  qed
qed

section \<open>The search returns candidates\<close>

lemma locate_cases:
  "locate n bands gains nyq t ext = ext
     \<or> (selection (locate n bands gains nyq t ext) (dense_grid n bands)
        \<and> length (locate n bands gains nyq t ext) = (n + 3) div 2
        \<and> alternating (error_at nyq bands gains (fst t)) (locate n bands gains nyq t ext)
        \<and> set (locate n bands gains nyq t ext)
            \<subseteq> set (peaks (\<lambda>f. \<bar>error_at nyq bands gains (fst t) f\<bar>) None (dense_grid n bands)))"
  using selection_trans [OF selection_trim selection_trans [OF selection_alternate selection_peaks]]
    selection_trans [OF selection_trim selection_alternate]
  by (auto simp: locate_def Let_def selection_def intro!: alternating_trim alternating_alternate)

lemma locate_peaks:
  assumes "locate n bands gains nyq t ext \<noteq> ext"
    and "x \<in> set (locate n bands gains nyq t ext)"
  shows "\<exists>i. dense_grid n bands ! i = x
    \<and> peak_at (\<lambda>f. \<bar>error_at nyq bands gains (fst t) f\<bar>) None (dense_grid n bands) i"
  using locate_cases [of n bands gains nyq t ext] assms
    peaks_are_peaks [of x "\<lambda>f. \<bar>error_at nyq bands gains (fst t) f\<bar>" None "dense_grid n bands"]
  by blast

lemma locate_candidates:
  assumes "sorted bands" "band_pairs bands \<noteq> []" "hd bands = 0" "last bands = nyq"
    and "0 < total_width (band_pairs bands)" "0 < n"
    and "candidates n nyq ext"
  shows "candidates n nyq (locate n bands gains nyq t ext)"
proof -
  let ?xs = "locate n bands gains nyq t ext"
  from locate_cases [of n bands gains nyq t ext] show ?thesis
  proof
    assume "?xs = ext"
    with assms(7) show ?thesis by simp
  next
    assume a: "selection ?xs (dense_grid n bands) \<and> length ?xs = (n + 3) div 2
      \<and> alternating (error_at nyq bands gains (fst t)) ?xs
      \<and> set ?xs \<subseteq> set (peaks (\<lambda>f. \<bar>error_at nyq bands gains (fst t) f\<bar>) None
          (dense_grid n bands))"
    from assms(6) have "0 < grid_density * ((n + 1) div 2)" by (simp add: grid_density_def)
    from spaced_sorted [OF assms(1,2,5) this] a have "sorted_wrt (<) ?xs"
      by (simp add: selection_def dense_grid_def)
    moreover from a spaced_range [OF assms(1-4)] have "\<forall>f\<in>set ?xs. 0 \<le> f \<and> f \<le> nyq"
      by (auto simp: selection_def dense_grid_def)
    ultimately show ?thesis using a by (simp add: candidates_def list_all_iff)
  qed
qed

section \<open>The script's equiripple design\<close>

lemma script_locate:
  assumes "valid_spec c" "Fs c = 4" "0 < n" "candidates n 1 ext"
  shows "candidates n 1 (locate n [0, F_pass c / 2, F_stop c / 2, 1] gains 1 t ext)"
  using script_bands [OF assms(1,2)] assms(3,4) by (intro locate_candidates) simp_all

lemma h_remez_parks_mcclellan:
  assumes "valid_spec c" "Fs c = 4" "M_kaiser c = Inr m"
  shows "h_remez parks_mcclellan c
     = Inr (fst (equiripple (locate (nat m) [0, F_pass c / 2, F_stop c / 2, 1] desired_amps_remez 1)
         (nat m) [0, F_pass c / 2, F_stop c / 2, 1] desired_amps_remez 1))"
  by (simp add: h_remez_equiripple [OF assms] parks_mcclellan_def)

lemma parks_mcclellan_stops:
  "\<exists>k<250. fst (parks_mcclellan n bands gains nyq)
       = cosine_taps (fst (solve_system nyq bands gains (candidates_at n bands gains nyq k)))
     \<and> (\<forall>j<k. candidates_at n bands gains nyq (Suc j) \<noteq> candidates_at n bands gains nyq j)
     \<and> (snd (parks_mcclellan n bands gains nyq)
        \<longleftrightarrow> candidates_at n bands gains nyq (Suc k) = candidates_at n bands gains nyq k)
     \<and> (snd (parks_mcclellan n bands gains nyq) \<or> k = 249)"
  using exchange_loop_stops [of max_iter "solve_system nyq bands gains" "locate n bands gains nyq"
      "seed n bands" "solve_system nyq bands gains (seed n bands)"]
  by (simp add: parks_mcclellan_def equiripple_def Let_def split_beta max_iter_def
      candidates_at_def) metis

lemma script_candidates_at:
  assumes "valid_spec c" "Fs c = 4" "0 < n"
  shows "candidates n 1 (candidates_at n [0, F_pass c / 2, F_stop c / 2, 1] gains 1 k)"
proof (induction k)
  case 0
  from script_seed [OF assms] show ?case by (simp add: candidates_at_def)
next
  case (Suc k)
  from script_locate [OF assms Suc] show ?case
    by (simp add: candidates_at_def exchange_step_def)
qed

lemma script_call:
  assumes "valid_spec c" "Fs c = 4" "M_kaiser c = Inr m" "bands_remez c = Inr b"
  shows "b = [0, F_pass c / 2, F_stop c / 2, 1]"
    and "h_remez parks_mcclellan c = Inr (fst (parks_mcclellan (nat m) b desired_amps_remez 1))"
proof -
  from assms(2,4) show b: "b = [0, F_pass c / 2, F_stop c / 2, 1]"
    by (simp add: bands_remez_eq)
  from h_remez_equiripple [OF assms(1-3)] show
    "h_remez parks_mcclellan c = Inr (fst (parks_mcclellan (nat m) b desired_amps_remez 1))"
    by (simp add: b)
qed

lemma script_round:
  assumes "valid_spec c" "Fs c = 4" "M_kaiser c = Inr m" "bands_remez c = Inr b" "0 < m"
  shows "candidates (nat m) 1 (candidates_at (nat m) b desired_amps_remez 1 k)"
    and "length (candidates_at (nat m) b desired_amps_remez 1 k) = (nat m + 3) div 2"
    and "i < (nat m + 3) div 2 \<Longrightarrow>
      desired_gain (band_pairs b) desired_amps_remez
          (candidates_at (nat m) b desired_amps_remez 1 k ! i)
        - amplitude (cosine_taps (fst (solve_system 1 b desired_amps_remez
            (candidates_at (nat m) b desired_amps_remez 1 k))))
          (pi * candidates_at (nat m) b desired_amps_remez 1 k ! i)
      = (- 1) ^ i * deviation (nodes 1 (candidates_at (nat m) b desired_amps_remez 1 k))
          (map (desired_gain (band_pairs b) desired_amps_remez)
            (candidates_at (nat m) b desired_amps_remez 1 k))"
proof -
  from assms(5) have m: "0 < nat m" by simp
  from script_candidates_at [OF assms(1,2) m] script_call(1) [OF assms(1-4)]
  show c: "candidates (nat m) 1 (candidates_at (nat m) b desired_amps_remez 1 k)" by simp
  then show l: "length (candidates_at (nat m) b desired_amps_remez 1 k) = (nat m + 3) div 2"
    by (simp add: candidates_def)
  assume "i < (nat m + 3) div 2"
  with candidates_taps(2) [OF c m, of b desired_amps_remez] l show
    "desired_gain (band_pairs b) desired_amps_remez
          (candidates_at (nat m) b desired_amps_remez 1 k ! i)
        - amplitude (cosine_taps (fst (solve_system 1 b desired_amps_remez
            (candidates_at (nat m) b desired_amps_remez 1 k))))
          (pi * candidates_at (nat m) b desired_amps_remez 1 k ! i)
      = (- 1) ^ i * deviation (nodes 1 (candidates_at (nat m) b desired_amps_remez 1 k))
          (map (desired_gain (band_pairs b) desired_amps_remez)
            (candidates_at (nat m) b desired_amps_remez 1 k))"
    by (simp add: snd_solve_system)
qed

lemma unit_rate_bands: "bands_remez unit_rate_task = Inr [0, 2 / 5, 3 / 5, 1]"
  by (simp add: bands_remez_eq)

lemma script_design:
  assumes "valid_spec c" "Fs c = 4" "M_kaiser c = Inr m" "0 < m"
  shows "\<exists>ext. candidates (nat m) 1 ext
     \<and> h_remez parks_mcclellan c = Inr (cosine_taps (fst (solve_system 1
         [0, F_pass c / 2, F_stop c / 2, 1] desired_amps_remez ext)))"
proof -
  from assms(4) have m: "0 < nat m" by simp
  from equiripple_result [where gains = desired_amps_remez
      and locate = "locate (nat m) [0, F_pass c / 2, F_stop c / 2, 1] desired_amps_remez 1",
      OF script_seed [OF assms(1,2) m] script_locate [OF assms(1,2) m]]
  show ?thesis by (auto simp: h_remez_parks_mcclellan [OF assms(1-3)])
qed

section \<open>Properties\<close>

text \<open>
  C15. The exchange loop of the script's equiripple design stops at the first round whose
  search returns the candidates it was given, and after 250 rounds when there is no such
  round: the taps are those of the solution at the candidates of a round \<open>k\<close> below 250,
  every earlier round changed the candidates, and the convergence flag of the designer,
  which the script drops, is set exactly when round \<open>k\<close> did not change them; when it is
  not set, \<open>k\<close> is the last round, 249.
\<close>

theorem h_remez_rounds:
  assumes "valid_spec c" "Fs c = 4" "M_kaiser c = Inr m" "bands_remez c = Inr b"
  shows "\<exists>k<250.
     h_remez parks_mcclellan c = Inr (cosine_taps (fst (solve_system 1 b desired_amps_remez
       (candidates_at (nat m) b desired_amps_remez 1 k))))
     \<and> (\<forall>j<k. candidates_at (nat m) b desired_amps_remez 1 (Suc j)
          \<noteq> candidates_at (nat m) b desired_amps_remez 1 j)
     \<and> (snd (parks_mcclellan (nat m) b desired_amps_remez 1)
        \<longleftrightarrow> candidates_at (nat m) b desired_amps_remez 1 (Suc k)
          = candidates_at (nat m) b desired_amps_remez 1 k)
     \<and> (snd (parks_mcclellan (nat m) b desired_amps_remez 1) \<or> k = 249)"
  using parks_mcclellan_stops [of "nat m" b desired_amps_remez 1]
  by (simp add: script_call(2) [OF assms])

theorem h_remez_rounds_witness:
  "\<exists>k<250.
     h_remez parks_mcclellan unit_rate_task
       = Inr (cosine_taps (fst (solve_system 1 [0, 2 / 5, 3 / 5, 1] desired_amps_remez
           (candidates_at 3 [0, 2 / 5, 3 / 5, 1] desired_amps_remez 1 k))))
     \<and> (\<forall>j<k. candidates_at 3 [0, 2 / 5, 3 / 5, 1] desired_amps_remez 1 (Suc j)
          \<noteq> candidates_at 3 [0, 2 / 5, 3 / 5, 1] desired_amps_remez 1 j)
     \<and> (snd (parks_mcclellan 3 [0, 2 / 5, 3 / 5, 1] desired_amps_remez 1) \<or> k = 249)"
  using h_remez_rounds [OF unit_rate_valid _ unit_rate_M_kaiser unit_rate_bands] by auto

text \<open>
  C6. The error of the script's equiripple design has equal magnitude and alternating
  sign at the candidate frequencies of the round its loop ends with. With \<open>k\<close> that
  round (every earlier round changed the candidates, and round \<open>k\<close> did not or is the
  last one), the candidates of round \<open>k\<close> are \<open>(m + 3) div 2\<close> increasing frequencies
  between zero and one, and at the \<open>i\<close>-th of them the desired gain minus the zero-phase
  response of the taps is \<open>(- 1) ^ i\<close> times the deviation computed from these candidates;
  and the taps are symmetric.
\<close>

theorem h_remez_equal_error:
  assumes "valid_spec c" "Fs c = 4" "M_kaiser c = Inr m" "bands_remez c = Inr b" "0 < m"
  shows "\<exists>k<250. \<exists>h. h_remez parks_mcclellan c = Inr h \<and> symmetric h
     \<and> (\<forall>j<k. candidates_at (nat m) b desired_amps_remez 1 (Suc j)
          \<noteq> candidates_at (nat m) b desired_amps_remez 1 j)
     \<and> (k = 249 \<or> candidates_at (nat m) b desired_amps_remez 1 (Suc k)
          = candidates_at (nat m) b desired_amps_remez 1 k)
     \<and> candidates (nat m) 1 (candidates_at (nat m) b desired_amps_remez 1 k)
     \<and> (\<forall>i<(nat m + 3) div 2.
          desired_gain (band_pairs b) desired_amps_remez
              (candidates_at (nat m) b desired_amps_remez 1 k ! i)
            - amplitude h (pi * candidates_at (nat m) b desired_amps_remez 1 k ! i)
          = (- 1) ^ i * deviation (nodes 1 (candidates_at (nat m) b desired_amps_remez 1 k))
              (map (desired_gain (band_pairs b) desired_amps_remez)
                (candidates_at (nat m) b desired_amps_remez 1 k)))"
proof -
  from parks_mcclellan_stops [of "nat m" b desired_amps_remez 1] obtain k where k: "k < 250"
    "fst (parks_mcclellan (nat m) b desired_amps_remez 1)
      = cosine_taps (fst (solve_system 1 b desired_amps_remez
          (candidates_at (nat m) b desired_amps_remez 1 k)))"
    "\<forall>j<k. candidates_at (nat m) b desired_amps_remez 1 (Suc j)
          \<noteq> candidates_at (nat m) b desired_amps_remez 1 j"
    "k = 249 \<or> candidates_at (nat m) b desired_amps_remez 1 (Suc k)
          = candidates_at (nat m) b desired_amps_remez 1 k"
    by blast
  with script_round(1,3) [OF assms, where k = k] show ?thesis
    by (intro exI [of _ k]) (simp add: script_call(2) [OF assms(1-4)] symmetric_cosine_taps)
qed

theorem h_remez_equal_error_witness:
  "\<exists>k<250. \<exists>h. h_remez parks_mcclellan unit_rate_task = Inr h \<and> symmetric h
     \<and> length (candidates_at 3 [0, 2 / 5, 3 / 5, 1] desired_amps_remez 1 k) = 3
     \<and> (\<forall>i<3.
          desired_gain [(0, 2 / 5), (3 / 5, 1)] desired_amps_remez
              (candidates_at 3 [0, 2 / 5, 3 / 5, 1] desired_amps_remez 1 k ! i)
            - amplitude h (pi * candidates_at 3 [0, 2 / 5, 3 / 5, 1] desired_amps_remez 1 k ! i)
          = (- 1) ^ i * deviation (nodes 1 (candidates_at 3 [0, 2 / 5, 3 / 5, 1] desired_amps_remez 1 k))
              (map (desired_gain [(0, 2 / 5), (3 / 5, 1)] desired_amps_remez)
                (candidates_at 3 [0, 2 / 5, 3 / 5, 1] desired_amps_remez 1 k)))"
  using h_remez_equal_error [OF unit_rate_valid _ unit_rate_M_kaiser unit_rate_bands]
  by (auto simp: candidates_def)

text \<open>
  C7. The script's equiripple design is best on the candidate frequencies of the round its
  loop ends with: whatever cosine series of at most \<open>(m + 1) div 2\<close> coefficients is taken
  in its place, at one of these candidates its error is at least as large in magnitude
  as the error of the design is at any of them.
\<close>

theorem h_remez_optimal:
  assumes "valid_spec c" "Fs c = 4" "M_kaiser c = Inr m" "bands_remez c = Inr b" "0 < m"
    and "length a \<le> (nat m + 1) div 2"
  shows "\<exists>k<250. \<exists>h. h_remez parks_mcclellan c = Inr h
     \<and> (\<forall>j<k. candidates_at (nat m) b desired_amps_remez 1 (Suc j)
          \<noteq> candidates_at (nat m) b desired_amps_remez 1 j)
     \<and> (k = 249 \<or> candidates_at (nat m) b desired_amps_remez 1 (Suc k)
          = candidates_at (nat m) b desired_amps_remez 1 k)
     \<and> (\<exists>i<(nat m + 3) div 2. \<forall>j<(nat m + 3) div 2.
          \<bar>desired_gain (band_pairs b) desired_amps_remez
              (candidates_at (nat m) b desired_amps_remez 1 k ! j)
            - amplitude h (pi * candidates_at (nat m) b desired_amps_remez 1 k ! j)\<bar>
          \<le> \<bar>desired_gain (band_pairs b) desired_amps_remez
              (candidates_at (nat m) b desired_amps_remez 1 k ! i)
            - cos_response a (pi * candidates_at (nat m) b desired_amps_remez 1 k ! i)\<bar>)"
proof -
  let ?ca = "candidates_at (nat m) b desired_amps_remez 1"
  from parks_mcclellan_stops [of "nat m" b desired_amps_remez 1] obtain k where k: "k < 250"
    "fst (parks_mcclellan (nat m) b desired_amps_remez 1)
      = cosine_taps (fst (solve_system 1 b desired_amps_remez (?ca k)))"
    "\<forall>j<k. ?ca (Suc j) \<noteq> ?ca j" "k = 249 \<or> ?ca (Suc k) = ?ca k"
    by blast
  note r = script_round [OF assms(1-5), where k = k]
  from assms(6) have "length a < (nat m + 3) div 2" by arith
  with r(1) r(2) solve_system_optimal [of "?ca k" 1 a b desired_amps_remez]
  obtain i where i: "i < (nat m + 3) div 2"
    "\<bar>deviation (nodes 1 (?ca k)) (map (desired_gain (band_pairs b) desired_amps_remez) (?ca k))\<bar>
      \<le> \<bar>desired_gain (band_pairs b) desired_amps_remez (?ca k ! i)
          - cos_response a (pi * ?ca k ! i)\<bar>"
    by (auto simp: candidates_def snd_solve_system)
  with k r(3) show ?thesis
    by (intro exI [of _ k]) (auto simp: script_call(2) [OF assms(1-4)] abs_mult intro!: exI [of _ i])
qed

theorem h_remez_optimal_witness:
  "\<exists>k<250. \<exists>h. h_remez parks_mcclellan unit_rate_task = Inr h
     \<and> (\<exists>i<3. \<forall>j<3.
          \<bar>desired_gain [(0, 2 / 5), (3 / 5, 1)] desired_amps_remez
              (candidates_at 3 [0, 2 / 5, 3 / 5, 1] desired_amps_remez 1 k ! j)
            - amplitude h (pi * candidates_at 3 [0, 2 / 5, 3 / 5, 1] desired_amps_remez 1 k ! j)\<bar>
          \<le> \<bar>desired_gain [(0, 2 / 5), (3 / 5, 1)] desired_amps_remez
              (candidates_at 3 [0, 2 / 5, 3 / 5, 1] desired_amps_remez 1 k ! i)
            - cos_response [1 / 2, 1 / 2] (pi * candidates_at 3 [0, 2 / 5, 3 / 5, 1] desired_amps_remez 1 k ! i)\<bar>)"
  using h_remez_optimal [OF unit_rate_valid _ unit_rate_M_kaiser unit_rate_bands, of "[1 / 2, 1 / 2]"]
  by auto

text \<open>
  C17. The number of taps of the script's equiripple design: it is the requested length
  when that length is odd and one less when it is even, because a cosine series of
  \<open>(m + 1) div 2\<close> coefficients has an odd number of taps.
\<close>

theorem h_remez_length:
  assumes "valid_spec c" "Fs c = 4" "M_kaiser c = Inr m" "0 < m"
  shows "\<exists>h. h_remez parks_mcclellan c = Inr h
     \<and> int (length h) = (if odd m then m else m - 1)"
proof -
  from assms(4) have m: "0 < nat m" by simp
  from script_design [OF assms] obtain ext where ext: "candidates (nat m) 1 ext"
    and h: "h_remez parks_mcclellan c = Inr (cosine_taps (fst (solve_system 1
         [0, F_pass c / 2, F_stop c / 2, 1] desired_amps_remez ext)))"
    by blast
  from candidates_taps(1) [where gains = desired_amps_remez, OF ext m, of
      "[0, F_pass c / 2, F_stop c / 2, 1]"] length_candidates_taps [OF assms(4)]
  show ?thesis by (simp add: h)
qed

theorem h_remez_length_witness:
  "\<exists>h. h_remez parks_mcclellan unit_rate_task = Inr h \<and> length h = 3"
  using h_remez_length [OF unit_rate_valid _ unit_rate_M_kaiser] by simp

text \<open>
  C16. One round of the search on the script's bands: given candidates, the search
  returns candidates again, that is as many increasing frequencies between zero and
  one. Unless it kept the old ones, the errors of the trial filter at the new candidates
  alternate in sign, and every new candidate is a point of the dense grid at which the
  magnitude of the error is at least that at the grid point before it and larger than
  that at the grid point after it.
\<close>

theorem h_remez_search:
  assumes "valid_spec c" "Fs c = 4" "0 < n" "candidates n 1 ext"
  shows "candidates n 1 (locate n [0, F_pass c / 2, F_stop c / 2, 1] desired_amps_remez 1 t ext)
     \<and> (locate n [0, F_pass c / 2, F_stop c / 2, 1] desired_amps_remez 1 t ext = ext
        \<or> (set (locate n [0, F_pass c / 2, F_stop c / 2, 1] desired_amps_remez 1 t ext)
              \<subseteq> set (dense_grid n [0, F_pass c / 2, F_stop c / 2, 1])
           \<and> alternating (error_at 1 [0, F_pass c / 2, F_stop c / 2, 1] desired_amps_remez (fst t))
              (locate n [0, F_pass c / 2, F_stop c / 2, 1] desired_amps_remez 1 t ext)
           \<and> (\<forall>x\<in>set (locate n [0, F_pass c / 2, F_stop c / 2, 1] desired_amps_remez 1 t ext).
                \<exists>i. dense_grid n [0, F_pass c / 2, F_stop c / 2, 1] ! i = x
                  \<and> peak_at
                    (\<lambda>f. \<bar>error_at 1 [0, F_pass c / 2, F_stop c / 2, 1] desired_amps_remez (fst t) f\<bar>)
                    None (dense_grid n [0, F_pass c / 2, F_stop c / 2, 1]) i)))"
  using script_locate [OF assms]
    locate_cases [of n "[0, F_pass c / 2, F_stop c / 2, 1]" desired_amps_remez 1 t ext]
    locate_peaks [of n "[0, F_pass c / 2, F_stop c / 2, 1]" desired_amps_remez 1 t ext]
  unfolding selection_def by blast

theorem h_remez_search_witness:
  "candidates 3 1 (locate 3 [0, 2 / 5, 3 / 5, 1] desired_amps_remez 1
     (solve_system 1 [0, 2 / 5, 3 / 5, 1] desired_amps_remez (seed 3 [0, 2 / 5, 3 / 5, 1]))
     (seed 3 [0, 2 / 5, 3 / 5, 1]))"
  using h_remez_search [OF unit_rate_valid _ _ script_seed [OF unit_rate_valid], of 3
      "solve_system 1 [0, 2 / 5, 3 / 5, 1] desired_amps_remez (seed 3 [0, 2 / 5, 3 / 5, 1])"]
  by simp

end
