(* ===== verification/Spec2Isabelle.thy ===== *)
theory Spec2Isabelle
  imports Presentation Freq_Sampling Extremal_Search
begin

text \<open>
  A verification development for the FIR low-pass design script \<^verbatim>\<open>src/66.py\<close>.

  \<^bold>\<open>The program.\<close> The script fixes one filter specification (sampling rate, passband and
  stopband edge, passband ripple, stopband attenuation), normalises it, designs four FIR
  low-pass filters (Hann window, Kaiser window, equiripple, frequency sampling), samples
  the frequency response of each on 2048 points, converts the magnitudes to decibels,
  plots the four curves with the requirement lines and prints the filter lengths. The
  designers, the evaluator and the plotting interface are library calls; the specification describes them as the
  components SpecNormalizer, WindowedSincDesigner, KaiserParameterEstimator,
  EquirippleDesigner, FrequencySamplingDesigner and FrequencyResponseEvaluator. Every
  assignment of the script is a definition of the same name over the record \<open>config\<close> of
  the five parameters, so that the script is verified for every parameter block and not
  only for its literals, which are the value \<open>task\<close>. The library routines are modelled
  from their contracts in the specification.

  \<^bold>\<open>The theories\<close>, in the order of the script.
  \<^item> \<open>FIR_Prelude\<close>: the error values, the result type with its sequencing \<open>rbind\<close>, Python's
    division \<open>py_div\<close>, tap sequences (\<open>tabulate\<close>, \<open>symmetric\<close>, \<open>centre\<close>), sums of
    mirrored and alternating sequences, bounds on fractional powers and on \<open>pi\<close>.
  \<^item> \<open>Spec_Normalizer\<close> (lines 7 to 20): \<open>config\<close>, \<open>task\<close>, \<open>wp\<close>, \<open>ws\<close>, \<open>A_pass\<close>,
    \<open>A_stop\<close>, and the contract \<open>normalize\<close> with its check \<open>valid_spec\<close>. The lemmas
    give the range of the band edges and the refinement of the contract by the script.
  \<^item> \<open>Kaiser_Estimator\<close> (lines 31 to 37): the closed formulas \<open>kaiser_beta\<close> and
    \<open>length_estimate\<close>, the call \<open>kaiserord\<close>, the contract \<open>estimate\<close> with \<open>force_odd\<close>,
    and the script's \<open>delta_w\<close>, \<open>M_kaiser\<close>, \<open>beta_kaiser\<close>. The lemmas give every branch
    of the script's length, its value for the literals, its relation to the contract's
    odd length, and monotonicity and continuity of the shape parameter.
  \<^item> \<open>Windowed_Sinc\<close> (lines 24 to 27 and 40 to 43): \<open>ideal_lowpass\<close>, \<open>hann\<close>, the Bessel
    series loop \<open>i0_loop\<close> and \<open>kaiser_window\<close>, \<open>windowed_sinc\<close>, \<open>dc_normalize\<close>, the
    designer \<open>firwin\<close>, and the script's \<open>M_window\<close>, \<open>Fc_window\<close>, \<open>h_window\<close>,
    \<open>Fc_kaiser\<close>, \<open>h_kaiser\<close>. The lemmas give termination of the loop, symmetry, length
    and gain of a design, and that a half-band Hann design always succeeds.
  \<^item> \<open>Freq_Response\<close> (lines 74 to 84): the transfer function \<open>dtft\<close>, the sampling
    \<open>freqz\<close>, the contract \<open>evaluate\<close>, and the script's \<open>N_fft\<close>, \<open>freqz_of\<close>, \<open>H_window\<close>,
    \<open>H_kaiser\<close>, \<open>to_dB\<close>, \<open>H_window_dB\<close>, \<open>H_kaiser_dB\<close> over the ordered type \<open>decibel\<close>.
    The lemmas give the grid, the gain at frequency zero, bounds, linear phase, and the
    relation of the script's conversion to the clamped conversion of the contract.
  \<^item> \<open>Band_Designs\<close> (lines 47 to 70): the input checks \<open>valid_bands\<close> and
    \<open>valid_breakpoints\<close> of the two remaining designers, the calls \<open>remez\<close> and \<open>firwin2\<close>
    over a synthesis given as a parameter, and the script's \<open>M_remez\<close>, \<open>bands_remez\<close>,
    \<open>desired_amps_remez\<close>, \<open>h_remez\<close>, \<open>M_firls\<close>, \<open>bands_firls\<close>, \<open>desired_amps_firls\<close>,
    \<open>h_firls\<close>, with their responses \<open>H_remez\<close>, \<open>H_firls\<close>, \<open>H_remez_dB\<close>, \<open>H_firls_dB\<close>
    (lines 77, 78, 83, 84). The lemmas give every branch of the two calls.
  \<^item> \<open>Cosine_Series\<close>: lists of coefficients of polynomials (\<open>horner\<close>, \<open>padd\<close>, \<open>smult\<close>,
    \<open>pmul_linear\<close>) and of cosine series (\<open>cos_response\<close>), the change of basis
    \<open>cosine_coeffs\<close> between them, and \<open>cosine_taps\<close>, the symmetric impulse response of a
    cosine series. The lemmas give the values of both kinds of list, that the
    zero-phase response of the taps is the cosine series, the way back from a cosine
    series to a polynomial (\<open>chebyshev\<close>, \<open>monomial_coeffs\<close>), and that polynomials which
    agree at as many points as they have coefficients are equal.
  \<^item> \<open>Equiripple\<close>: the exchange iteration of the equiripple designer over a search for
    new candidates given as a parameter: the first candidates \<open>seed\<close>, the solution
    \<open>solve_system\<close> of the linear system at the candidates (\<open>bary\<close>, \<open>deviation\<close>,
    \<open>lagrange\<close>), the bounded loop \<open>exchange_loop\<close>, and the design \<open>equiripple\<close>. The
    lemmas give the alternating error of equal magnitude at the candidates, that no
    cosine series of the same length has a smaller maximal error on the candidates
    (\<open>solve_system_optimal\<close>), the number of taps and their symmetry, and the round at
    which the loop ends (\<open>exchange_loop_stops\<close>).
  \<^item> \<open>Extremal_Search\<close>: the search \<open>locate\<close> for new candidates on the dense grid
    (\<open>dense_grid\<close>, \<open>error_at\<close>, \<open>peaks\<close>, \<open>alternate\<close>, \<open>trim\<close>) and the design
    \<open>parks_mcclellan\<close> with that search, which instantiates the parameter of \<open>h_remez\<close>.
    \<open>candidates_at\<close> names the candidates at the start of a round. The lemmas give that
    the search returns ordered candidates, local maxima of the magnitude of the error on
    the grid, whose errors alternate in sign, and the properties of the script's
    equiripple design at the round its loop ends with.
  \<^item> \<open>Freq_Sampling\<close>: the synthesis \<open>freq_sampling\<close> of the frequency-sampling designer
    (\<open>interp\<close>, \<open>pow2_above\<close>, \<open>desired_response\<close>, \<open>inverse_transform\<close>), which
    instantiates the parameter of \<open>h_firls\<close>. The lemmas give the length and the symmetry
    of the taps, their closed form as a cosine series, and the interpolated desired gain
    of the script's breakpoints.
  \<^item> \<open>Pyplot\<close>: the stateful plotting interface as a state machine. A call is a value
    of \<open>plot_cmd\<close>, one constructor for each function of the interface that the script
    calls; the state is the current \<open>figure\<close>; \<open>exec\<close> is the effect of one call, \<open>run\<close>
    the effect of a list of calls, and \<open>plot_step\<close> and \<open>plot_steps\<close> the same machine as a
    step relation. The lemmas give determinism, progress for well-formed calls,
    preservation of \<open>wf_figure\<close>, the agreement of \<open>run\<close> with the step relation, and
    what the calls made so far have drawn (\<open>plotted\<close>).
  \<^item> \<open>Presentation\<close> (lines 88 to 117): the legend entries \<open>curve_labels\<close>, the
    \<open>requirement_lines\<close>, the axis limits \<open>xlim\<close> and \<open>ylim\<close>, the list \<open>plot_program\<close> of
    the plotting calls of lines 88 to 110 in their order, the printed \<open>stdout_lines\<close>,
    and \<open>present\<close>, which runs the calls from the blank figure and then prints. The
    lemmas give the figure at the end of the run, \<open>the_final\<close>, the figure in every
    state on the way there, and every branch of \<open>present\<close>.
  \<^item> This theory: the script as a whole, \<open>script\<close>, which runs the steps in the order of
    the source, from line 14 to line 117, and stops at the first error. The record
    \<open>outputs\<close> collects the values the script holds at its end: the tolerances of lines 19
    and 20, the four designs, the grid and the four curves, the legend, the requirement
    lines, the shown figure and the printed lines; it is the result type of the model
    and has no lines of its own. \<open>curve_dB\<close> is the evaluation of lines 75 to 84 applied
    to one design, and the lemmas relate its results to the script's own variables and to
    the figure it shows.

  \<^bold>\<open>Numbers.\<close> Python floats are modelled as real numbers and Python integers as
  integers; a statement about a value is a statement about the exact value that the
  floating-point run approximates. Rounding errors are not modelled.

  \<^bold>\<open>Errors.\<close> An exception is a value \<open>Inl e\<close> of the result type. The script itself can
  only raise \<^verbatim>\<open>ZeroDivisionError\<close> (a zero sampling rate); the other errors are those of
  the contracts. The designer contract rejects even lengths, which the library the
  script calls accepts; the lemmas on the Kaiser design state what follows. A plotting
  call whose two sequences differ in length fails with \<open>ShapeMismatch\<close>; the lemmas on
  \<open>script\<close> show that this cannot happen in the script, because all four curves are
  sampled on the grid they are plotted over.

  \<^bold>\<open>Loops.\<close> There are three. The recursion \<open>pow2_above\<close> halves its argument and is
  proved total. The exchange loop of the equiripple designer counts its rounds down from
  \<open>max_iter\<close>, the bound 250 that the specification gives, so the bound is part of the
  model and not an approximation of it; that the recursion ends is therefore immediate,
  and what is proved is where it ends: \<open>exchange_loop_converged\<close> and
  \<open>exchange_loop_exhausted\<close> say what the loop returns with either value of its flag, and
  \<open>exchange_loop_stops\<close> that it stops at the first round that leaves the candidates
  unchanged, or at the last round. The
  function \<open>trim\<close> of the search drops one element in each call and is proved total. The
  third loop is the series of the Bessel function. It is a \<open>while\<close> loop
  over \<open>i0_state\<close> that stops when the last term is at most \<open>i0_tol\<close>, which is
  \<open>1 / 10 ^ 12\<close>, times the sum. No fuel is needed: \<open>i0_loop_terminates\<close> proves that the loop ends for every
  argument, because the terms tend to zero while the sum stays at least one, and the
  lemmas on \<open>bessel_i0\<close> hold for the value the loop returns.

  \<^bold>\<open>Interfaces.\<close> The two remaining designers take their synthesis as a function: an
  \<open>exchange\<close> for \<open>h_remez\<close> and a \<open>sampling\<close> for \<open>h_firls\<close>, and \<open>script\<close> takes both.
  Every lemma stated over these parameters holds for all such functions;
  \<open>freq_sampling\<close> is the \<open>sampling\<close> of the contract and \<open>parks_mcclellan\<close> the
  \<open>exchange\<close> of the contract; the instances of the lemmas on \<open>script\<close> are stated for
  these two. Inside the equiripple designer the search for new candidates is again a
  parameter of the loop, so that the lemmas on the loop hold for every search.

  \<^bold>\<open>Not modelled.\<close> Weights of the bands in the equiripple designer: neither the
  contract nor the call of the script has them, so every band has weight one. That the
  equiripple design minimises the maximal error over the whole bands is not proved, and
  does not hold for every run of the algorithm: the lemmas give the equal alternating
  error on the candidates of the last round and that no cosine series of the same length
  does better on these candidates; the step from the candidates to the bands needs the
  candidates to be the extrema of the error over the bands, which a search on a grid
  of \<open>grid_density\<close> points for each coefficient does not give. The rendering of the figure on
  a screen, the options of the grid call, the line width of the stopband line, and the
  wording of captions and printed lines: a caption and a printed line are values that
  keep the numbers the text shows. The imports of lines 1 to 4.
\<close>

section \<open>The script as a whole\<close>

record outputs =
  tol_pass :: real
  tol_stop :: real
  taps_window :: "real list"
  taps_kaiser :: "real list"
  taps_remez :: "real list"
  taps_firls :: "real list"
  grid :: "real list"
  dB_window :: "decibel list"
  dB_kaiser :: "decibel list"
  dB_remez :: "decibel list"
  dB_firls :: "decibel list"
  legend :: "curve_label list"
  lines :: "segment list"
  shown_figure :: "(legend_label, caption) figure"
  stdout :: "out_line list"

definition curve_dB :: "config \<Rightarrow> real list \<Rightarrow> decibel list" where
  curve_dB_def [script_defs]:
  "curve_dB c h = to_dB (snd (freqz h (nat N_fft) (Fs c)))"

definition script :: "exchange \<Rightarrow> sampling \<Rightarrow> config \<Rightarrow> outputs result" where
  script_def [script_defs]:
  "script ex syn c =
     rbind (wp c) (\<lambda>p. rbind (ws c) (\<lambda>s.
     rbind (h_window c) (\<lambda>hw.
     rbind (h_kaiser c) (\<lambda>hk.
     rbind (h_remez ex c) (\<lambda>hr.
     rbind (h_firls syn c) (\<lambda>hf.
     rbind (present c (fst (freqz hf (nat N_fft) (Fs c)))
       [curve_dB c hw, curve_dB c hk, curve_dB c hr, curve_dB c hf]) (\<lambda>(ls, fig, printed). Inr
       \<lparr>tol_pass = A_pass c, tol_stop = A_stop c, taps_window = hw, taps_kaiser = hk, taps_remez = hr, taps_firls = hf,
        grid = fst (freqz hf (nat N_fft) (Fs c)),
        dB_window = curve_dB c hw, dB_kaiser = curve_dB c hk,
        dB_remez = curve_dB c hr, dB_firls = curve_dB c hf,
        legend = ls, lines = requirement_lines c, shown_figure = fig,
        stdout = printed\<rparr>)))))))"

section \<open>Errors of the steps\<close>

lemma M_kaiser_errors:
  "M_kaiser c = Inl e \<Longrightarrow> e = ZeroDivision \<or> e = InvalidTransitionWidth"
  by (auto simp: M_kaiser_def kaiser_pair_def kaiserord_def delta_w_eq rbind_eq_Inl_iff
      split: if_splits)

lemma beta_kaiser_errors:
  "beta_kaiser c = Inl e \<Longrightarrow> e = ZeroDivision \<or> e = InvalidTransitionWidth"
  by (auto simp: beta_kaiser_def kaiser_pair_def kaiserord_def delta_w_eq rbind_eq_Inl_iff
      split: if_splits)

lemma h_window_errors: "h_window c = Inl e \<Longrightarrow> e = ZeroDivision"
  by (auto simp: h_window_eq dc_normalize_def split: if_splits)

lemma h_kaiser_errors:
  "h_kaiser c = Inl e \<Longrightarrow>
     e = ZeroDivision \<or> e = InvalidTransitionWidth \<or> e = InvalidLength"
  by (auto simp: h_kaiser_eq dest: firwin_errors split: if_splits)

lemma h_remez_errors:
  assumes "h_remez ex c = Inl e"
  shows "e = ZeroDivision \<or> e = InvalidTransitionWidth \<or> e = InvalidBandSpec"
proof (cases "M_kaiser c")
  case (Inl a)
  with assms have "a = e" by (simp add: h_remez_def M_remez_def)
  with Inl M_kaiser_errors [of c e] show ?thesis by blast
next
  case (Inr m)
  with assms show ?thesis by (simp add: h_remez_eq [OF Inr] split: if_splits)
qed

lemma h_firls_errors:
  assumes "h_firls syn c = Inl e"
  shows "e = ZeroDivision \<or> e = InvalidTransitionWidth \<or> e = InvalidBreakpoints"
proof (cases "M_kaiser c")
  case (Inl a)
  with assms have "a = e" by (simp add: h_firls_def M_firls_def)
  with Inl M_kaiser_errors [of c e] show ?thesis by blast
next
  case (Inr m)
  with assms show ?thesis by (simp add: h_firls_eq [OF Inr] split: if_splits)
qed

lemma curve_lengths:
  "list_all (\<lambda>ys. length ys = length (fst (freqz hf (nat N_fft) (Fs c))))
     [curve_dB c hw, curve_dB c hk, curve_dB c hr, curve_dB c hf]"
  by (simp add: curve_dB_def)

lemma present_script_ok:
  assumes "M_kaiser c = Inr m"
  shows "is_ok (present c (fst (freqz hf (nat N_fft) (Fs c)))
    [curve_dB c hw, curve_dB c hk, curve_dB c hr, curve_dB c hf])"
  using present_ok(1) [OF assms _ curve_lengths, of c hw hk hr hf] by simp

lemma present_script_errors:
  assumes "present c (fst (freqz hf (nat N_fft) (Fs c)))
    [curve_dB c hw, curve_dB c hk, curve_dB c hr, curve_dB c hf] = Inl e"
  shows "e = ZeroDivision \<or> e = InvalidTransitionWidth"
proof (cases "M_kaiser c")
  case (Inl a)
  with assms M_kaiser_errors [of c a] show ?thesis by (simp add: present_error)
next
  case (Inr m)
  from present_script_ok [OF Inr, of hf hw hk hr] assms show ?thesis by (simp add: is_ok_iff)
qed

lemma script_eq_Inl_iff:
  "script ex syn c = Inl e \<longleftrightarrow>
     wp c = Inl e \<or> (is_ok (wp c) \<and> (ws c = Inl e \<or> (is_ok (ws c) \<and>
     (h_window c = Inl e \<or> (\<exists>hw. h_window c = Inr hw \<and>
     (h_kaiser c = Inl e \<or> (\<exists>hk. h_kaiser c = Inr hk \<and>
     (h_remez ex c = Inl e \<or> (\<exists>hr. h_remez ex c = Inr hr \<and>
     (h_firls syn c = Inl e \<or> (\<exists>hf. h_firls syn c = Inr hf \<and>
       present c (fst (freqz hf (nat N_fft) (Fs c)))
         [curve_dB c hw, curve_dB c hk, curve_dB c hr, curve_dB c hf] = Inl e)))))))))))"
  by (simp add: script_def rbind_eq_Inl_iff is_ok_iff split_beta)

lemma script_eq_Inr_iff:
  "script ex syn c = Inr out \<longleftrightarrow>
     (\<exists>hw hk hr hf ls fig printed. is_ok (wp c) \<and> is_ok (ws c) \<and> h_window c = Inr hw
        \<and> h_kaiser c = Inr hk \<and> h_remez ex c = Inr hr \<and> h_firls syn c = Inr hf
        \<and> present c (fst (freqz hf (nat N_fft) (Fs c)))
            [curve_dB c hw, curve_dB c hk, curve_dB c hr, curve_dB c hf]
          = Inr (ls, fig, printed)
        \<and> out = \<lparr>tol_pass = A_pass c, tol_stop = A_stop c, taps_window = hw, taps_kaiser = hk, taps_remez = hr, taps_firls = hf,
            grid = fst (freqz hf (nat N_fft) (Fs c)),
            dB_window = curve_dB c hw, dB_kaiser = curve_dB c hk,
            dB_remez = curve_dB c hr, dB_firls = curve_dB c hf,
            legend = ls, lines = requirement_lines c, shown_figure = fig,
            stdout = printed\<rparr>)"
  by (simp add: script_def rbind_eq_Inr_iff is_ok_iff split_beta) blast

section \<open>Runs of the script\<close>

lemma script_stops_at:
  assumes "is_ok (wp c)" "is_ok (ws c)" "is_ok (h_window c)" "h_kaiser c = Inl e"
  shows "script ex syn c = Inl e"
  using assms by (auto simp: script_def is_ok_iff)

lemma script_runs:
  assumes "is_ok (wp c)" "is_ok (ws c)" "is_ok (h_window c)" "is_ok (h_kaiser c)"
    "is_ok (h_remez ex c)" "is_ok (h_firls syn c)"
  shows "\<exists>out. script ex syn c = Inr out"
proof -
  from assms(4) obtain m where "M_kaiser c = Inr m"
    by (auto simp: is_ok_iff h_kaiser_def rbind_eq_Inr_iff)
  from present_script_ok [OF this] assms show ?thesis
    unfolding script_eq_Inr_iff is_ok_iff by (metis prod_cases3)
qed

lemma script_task: "script ex syn task = Inl InvalidLength"
  using h_window_task_ok
  by (intro script_stops_at) (auto simp: wp_ok ws_ok h_kaiser_task)

lemma unit_rate_steps:
  "M_kaiser unit_rate_task = Inr 3"
  "h_kaiser unit_rate_task = Inr (map (\<lambda>x. x / (1 / 2 + 2 / pi)) [1 / pi, 1 / 2, 1 / pi])"
  "\<exists>h. h_window unit_rate_task = Inr h"
  "h_remez ex unit_rate_task = Inr (fst (ex 3 [0, 2 / 5, 3 / 5, 1] desired_amps_remez 1))"
  "h_firls syn unit_rate_task = Inr (syn 3 (bands_firls unit_rate_task) desired_amps_firls 2)"
proof -
  have d: "delta_w unit_rate_task = Inr (1 / 5)" by (simp add: delta_w_eq)
  have fc: "Fc_window unit_rate_task = Inr (1 / 2)" by (simp add: Fc_window_eq)
  show m: "M_kaiser unit_rate_task = Inr 3" by (rule unit_rate_M_kaiser)
  from d fc show "h_kaiser unit_rate_task
      = Inr (map (\<lambda>x. x / (1 / 2 + 2 / pi)) [1 / pi, 1 / 2, 1 / pi])"
    by (rule h_kaiser_rect_3) simp
  show "\<exists>h. h_window unit_rate_task = Inr h"
    by (simp add: h_window_firwin [OF fc] halfband_hann_firwin)
  show "h_remez ex unit_rate_task = Inr (fst (ex 3 [0, 2 / 5, 3 / 5, 1] desired_amps_remez 1))"
    by (simp add: h_remez_eq [OF m])
  show "h_firls syn unit_rate_task
      = Inr (syn 3 (bands_firls unit_rate_task) desired_amps_firls 2)"
    by (simp add: h_firls_eq [OF m] unit_rate_valid)
qed

lemma script_unit_rate: "\<exists>out. script ex syn unit_rate_task = Inr out"
proof -
  from unit_rate_steps(3) obtain hw where "h_window unit_rate_task = Inr hw" ..
  then show ?thesis
    by (intro script_runs) (simp_all add: unit_rate_steps wp_ok ws_ok)
qed

lemma curve_dB_dc:
  assumes "sum_list h = 1"
  shows "length (curve_dB c h) = 2048" "curve_dB c h ! 0 = Db 0"
  using assms by (simp_all add: curve_dB_def N_fft_def to_dB_nth nth_freqz)

lemma script_success_rate:
  assumes "script ex syn c = Inr out"
  shows "Fs c = 4" and "valid_spec c"
proof -
  from assms obtain hk hr hf where hk: "h_kaiser c = Inr hk"
    and hr: "h_remez ex c = Inr hr" and hf: "h_firls syn c = Inr hf"
    by (auto simp: script_eq_Inr_iff)
  from hk obtain m where m: "M_kaiser c = Inr m"
    by (auto simp: h_kaiser_def rbind_eq_Inr_iff)
  from hr show "Fs c = 4" by (simp add: h_remez_eq [OF m] split: if_splits)
  from hf show "valid_spec c" by (simp add: h_firls_eq [OF m] split: if_splits)
qed

lemma script_success_outputs:
  assumes "script ex syn c = Inr out"
  shows "h_window c = Inr (taps_window out)" and "h_kaiser c = Inr (taps_kaiser out)"
    and "dB_window out = curve_dB c (taps_window out)"
    and "dB_kaiser out = curve_dB c (taps_kaiser out)"
    and "H_window_dB c = Inr (dB_window out)" and "H_kaiser_dB c = Inr (dB_kaiser out)"
    and "H_remez_dB ex c = Inr (dB_remez out)" and "H_firls_dB syn c = Inr (dB_firls out)"
    and "w_firls syn c = Inr (grid out)"
    and "length (grid out) = 2048"
    and "present c (grid out) [dB_window out, dB_kaiser out, dB_remez out, dB_firls out]
      = Inr (legend out, shown_figure out, stdout out)"
    and "list_all (\<lambda>ys. length ys = length (grid out))
      [dB_window out, dB_kaiser out, dB_remez out, dB_firls out]"
proof -
  from assms obtain hw hk hr hf ls fig pr where hw: "h_window c = Inr hw"
    and hk: "h_kaiser c = Inr hk" and hr: "h_remez ex c = Inr hr"
    and hf: "h_firls syn c = Inr hf"
    and pr: "present c (fst (freqz hf (nat N_fft) (Fs c)))
      [curve_dB c hw, curve_dB c hk, curve_dB c hr, curve_dB c hf] = Inr (ls, fig, pr)"
    and out: "out = \<lparr>tol_pass = A_pass c, tol_stop = A_stop c, taps_window = hw, taps_kaiser = hk, taps_remez = hr, taps_firls = hf,
      grid = fst (freqz hf (nat N_fft) (Fs c)),
      dB_window = curve_dB c hw, dB_kaiser = curve_dB c hk,
      dB_remez = curve_dB c hr, dB_firls = curve_dB c hf,
      legend = ls, lines = requirement_lines c, shown_figure = fig, stdout = pr\<rparr>"
    unfolding script_eq_Inr_iff by blast
  from hw hk out show "h_window c = Inr (taps_window out)" "h_kaiser c = Inr (taps_kaiser out)"
    "dB_window out = curve_dB c (taps_window out)" "dB_kaiser out = curve_dB c (taps_kaiser out)"
    "length (grid out) = 2048"
    by (simp_all add: N_fft_def)
  from hw hk hr hf out show "H_window_dB c = Inr (dB_window out)"
    "H_kaiser_dB c = Inr (dB_kaiser out)" "H_remez_dB ex c = Inr (dB_remez out)"
    "H_firls_dB syn c = Inr (dB_firls out)" "w_firls syn c = Inr (grid out)"
    by (simp_all add: window_response_ok kaiser_response_ok remez_response_ok
        firls_response_ok curve_dB_def N_fft_def)
  from pr out curve_lengths [of hf c hw hk hr]
  show "present c (grid out) [dB_window out, dB_kaiser out, dB_remez out, dB_firls out]
      = Inr (legend out, shown_figure out, stdout out)"
    "list_all (\<lambda>ys. length ys = length (grid out))
      [dB_window out, dB_kaiser out, dB_remez out, dB_firls out]"
    by simp_all
qed

lemma script_success_grids:
  assumes "script ex syn c = Inr out"
  shows "w_window c = Inr (grid out)" "w_kaiser c = Inr (grid out)"
    "w_remez ex c = Inr (grid out)"
proof -
  from assms obtain hw hk hr hf where "h_window c = Inr hw" "h_kaiser c = Inr hk"
    "h_remez ex c = Inr hr" and "grid out = fst (freqz hf (nat N_fft) (Fs c))"
    unfolding script_eq_Inr_iff by auto
  then show "w_window c = Inr (grid out)" "w_kaiser c = Inr (grid out)"
    "w_remez ex c = Inr (grid out)"
    using freqz_grid_same [of _ 2048 "Fs c" hf]
    by (simp_all add: window_response_ok kaiser_response_ok remez_response_ok N_fft_def)
qed

lemma script_success_presentation:
  assumes "script ex syn c = Inr out"
  shows "stdout out = [Summary_Header, Length_Line Window_Hanning 47,
        Length_Line Kaiser_Window (int (length (taps_kaiser out))),
        Length_Line Remez (int (length (taps_kaiser out))),
        Length_Line FIRLS (int (length (taps_kaiser out)))]"
    and "legend out = the_labels c (int (length (taps_kaiser out)))"
    and "shown_figure out = the_final c (grid out)
        [dB_window out, dB_kaiser out, dB_remez out, dB_firls out] (legend out)"
    and "run (plot_program c (grid out)
        [dB_window out, dB_kaiser out, dB_remez out, dB_firls out] (legend out)) blank
      = Inr (shown_figure out)"
    and "wf_figure (shown_figure out)"
proof -
  note o = script_success_outputs [OF assms]
  note p = present_ok [OF h_kaiser_success(1) [OF o(2)] _ o(12)]
  from p(1) o(11) show l: "legend out = the_labels c (int (length (taps_kaiser out)))"
    and f: "shown_figure out = the_final c (grid out)
        [dB_window out, dB_kaiser out, dB_remez out, dB_firls out] (legend out)"
    and "stdout out = [Summary_Header, Length_Line Window_Hanning 47,
        Length_Line Kaiser_Window (int (length (taps_kaiser out))),
        Length_Line Remez (int (length (taps_kaiser out))),
        Length_Line FIRLS (int (length (taps_kaiser out)))]"
    by simp_all
  from p(2,3) l f show "run (plot_program c (grid out)
        [dB_window out, dB_kaiser out, dB_remez out, dB_firls out] (legend out)) blank
      = Inr (shown_figure out)" "wf_figure (shown_figure out)"
    by simp_all
qed

section \<open>Properties of the whole script\<close>

text \<open>
  C19. Under the contracts of the designers the script stops at its Kaiser design for
  its own parameters, with \<open>InvalidLength\<close>, whatever the equiripple and the
  frequency-sampling synthesis compute.
\<close>

theorem script_task_stops:
  "\<forall>ex syn. script ex syn task = Inl InvalidLength"
  by (simp add: script_task)

text \<open>
  C28. The script fails only with \<^verbatim>\<open>ZeroDivisionError\<close> or with the input errors of the
  Kaiser estimator and the three designers; it never reports \<open>InvalidSpec\<close> or
  \<open>InvalidGridSize\<close>, and its plotting calls never fail with \<open>ShapeMismatch\<close>.
\<close>

theorem script_errors:
  assumes "script ex syn c = Inl e"
  shows "e = ZeroDivision \<or> e = InvalidTransitionWidth \<or> e = InvalidLength
     \<or> e = InvalidBandSpec \<or> e = InvalidBreakpoints"
  using assms wp_eq_Inl_iff [of c e] ws_eq_Inl_iff [of c e] h_window_errors [of c e]
    h_kaiser_errors [of c e] h_remez_errors [of ex c e] h_firls_errors [of syn c e]
    present_script_errors [of c _ _ _ _ e]
  unfolding script_eq_Inl_iff by blast

theorem script_errors_witness:
  "script parks_mcclellan freq_sampling task = Inl InvalidLength
     \<and> InvalidLength \<noteq> InvalidSpec"
  using script_errors [of parks_mcclellan freq_sampling task InvalidLength]
  by (simp add: script_task)

text \<open>
  C9. The script runs to completion only for a valid specification whose sampling rate
  is 4, the one rate at which the band edges of the equiripple call reach the Nyquist
  frequency of that call.
\<close>

theorem script_runs_only_at_unit_rate:
  assumes "script ex syn c = Inr out"
  shows "Fs c = 4 \<and> valid_spec c"
  using script_success_rate [OF assms] by simp

theorem script_runs_only_at_unit_rate_witness:
  "\<exists>out. script parks_mcclellan freq_sampling unit_rate_task = Inr out
     \<and> Fs unit_rate_task = 4"
proof -
  from script_unit_rate obtain out
    where out: "script parks_mcclellan freq_sampling unit_rate_task = Inr out" ..
  from script_runs_only_at_unit_rate [OF out] out show ?thesis by blast
qed

text \<open>
  C25. When the script runs to completion, both window designs have unit gain at
  frequency zero and linear phase, the Hann design has 47 taps and the Kaiser design an
  odd number of taps, both decibel curves have 2048 points and start at 0 dB, the four
  curves are the values of \<open>H_window_dB\<close>, \<open>H_kaiser_dB\<close>, \<open>H_remez_dB\<close> and \<open>H_firls_dB\<close>,
  the grid variable has the same value after each of the four evaluations that assign it,
  and the printed lines are the header and the lengths 47 and three times the length of
  the Kaiser design.
\<close>

theorem script_outputs:
  assumes "script ex syn c = Inr out"
  shows "length (taps_window out) = 47 \<and> sum_list (taps_window out) = 1
     \<and> symmetric (taps_window out) \<and> odd (length (taps_kaiser out))
     \<and> sum_list (taps_kaiser out) = 1 \<and> symmetric (taps_kaiser out)
     \<and> length (grid out) = 2048
     \<and> length (dB_window out) = 2048 \<and> dB_window out ! 0 = Db 0
     \<and> length (dB_kaiser out) = 2048 \<and> dB_kaiser out ! 0 = Db 0
     \<and> H_window_dB c = Inr (dB_window out) \<and> H_kaiser_dB c = Inr (dB_kaiser out)
     \<and> H_remez_dB ex c = Inr (dB_remez out) \<and> H_firls_dB syn c = Inr (dB_firls out)
     \<and> w_window c = Inr (grid out) \<and> w_kaiser c = Inr (grid out)
     \<and> w_remez ex c = Inr (grid out) \<and> w_firls syn c = Inr (grid out)
     \<and> stdout out = [Summary_Header, Length_Line Window_Hanning 47,
          Length_Line Kaiser_Window (int (length (taps_kaiser out))),
          Length_Line Remez (int (length (taps_kaiser out))),
          Length_Line FIRLS (int (length (taps_kaiser out)))]"
proof -
  note o = script_success_outputs [OF assms]
  from h_window_success [OF o(1)] h_kaiser_success [OF o(2)] o(5-10)
    curve_dB_dc [of "taps_window out" c] curve_dB_dc [of "taps_kaiser out" c]
    script_success_presentation(1) [OF assms] script_success_grids [OF assms]
  show ?thesis by (simp add: o(3,4))
qed

theorem script_outputs_witness:
  "\<exists>out. script parks_mcclellan freq_sampling unit_rate_task = Inr out
     \<and> length (taps_window out) = 47 \<and> dB_kaiser out ! 0 = Db 0
     \<and> stdout out = [Summary_Header, Length_Line Window_Hanning 47,
          Length_Line Kaiser_Window 3, Length_Line Remez 3, Length_Line FIRLS 3]"
proof -
  from script_unit_rate obtain out
    where out: "script parks_mcclellan freq_sampling unit_rate_task = Inr out" ..
  from script_success_outputs(2) [OF out] have "length (taps_kaiser out) = 3"
    by (auto simp: unit_rate_steps dest: arg_cong [where f = length])
  with script_outputs [OF out] out show ?thesis by auto
qed

text \<open>
  C13. The plotting calls of a run that completes cannot go wrong and come in the right
  order: in every state that they pass through from the blank figure, the figure is
  well-formed, and either all calls are made or the next call succeeds; the curves drawn
  so far are the first ones of the four decibel curves followed by the four requirement
  lines; the figure is shown exactly when no call is left; and the legend is made only
  after all eight curves are drawn.
\<close>

theorem script_plot_states:
  assumes "script ex syn c = Inr out"
    and "plot_steps (plot_program c (grid out)
        [dB_window out, dB_kaiser out, dB_remez out, dB_firls out] (legend out), blank) (cs, f)"
  shows "wf_figure f \<and> (cs = [] \<or> (\<exists>t. plot_step (cs, f) t))
     \<and> fig_curves f = take (length (fig_curves f))
          (response_curves (grid out) [dB_window out, dB_kaiser out, dB_remez out, dB_firls out]
             (legend out) @ requirement_curves c)
     \<and> (fig_shown f \<longleftrightarrow> cs = [])
     \<and> (fig_legend f \<noteq> None \<longrightarrow> length (fig_curves f) = 8)"
proof -
  note o = script_success_outputs [OF assms(1)] and p = script_success_presentation [OF assms(1)]
  from p(2) have l: "length [dB_window out, dB_kaiser out, dB_remez out, dB_firls out]
      = length (legend out)"
    by (simp add: the_labels_def)
  with o(12) have "list_all wf_cmd (plot_program c (grid out)
      [dB_window out, dB_kaiser out, dB_remez out, dB_firls out] (legend out))"
    by (simp only: wf_plot_program)
  with plot_steps_preserve_wf [OF assms(2)] plot_steps_progress [OF assms(2)]
  have "wf_figure f" "cs = [] \<or> (\<exists>t. plot_step (cs, f) t)" by simp_all
  moreover from l have "length (response_curves (grid out)
      [dB_window out, dB_kaiser out, dB_remez out, dB_firls out] (legend out)) = 4"
    by (simp add: response_curves_def)
  ultimately show ?thesis using plot_program_state [OF assms(2)] by auto
qed

theorem script_plot_states_witness:
  "\<exists>out. script parks_mcclellan freq_sampling unit_rate_task = Inr out
     \<and> (\<exists>t. plot_step (tl (plot_program unit_rate_task (grid out)
          [dB_window out, dB_kaiser out, dB_remez out, dB_firls out] (legend out)),
          blank\<lparr>fig_size := Some (12, 6)\<rparr>) t)"
proof -
  from script_unit_rate obtain out
    where out: "script parks_mcclellan freq_sampling unit_rate_task = Inr out" ..
  have "plot_steps (plot_program unit_rate_task (grid out)
        [dB_window out, dB_kaiser out, dB_remez out, dB_firls out] (legend out), blank)
      (tl (plot_program unit_rate_task (grid out)
        [dB_window out, dB_kaiser out, dB_remez out, dB_firls out] (legend out)),
       blank\<lparr>fig_size := Some (12, 6)\<rparr>)"
    by (auto simp: plot_program_def figsize_def intro!: plot_steps.after [OF _ plot_steps.here]
        plot_step.call)
  from script_plot_states [OF out this] out show ?thesis
    by (auto simp: plot_program_def)
qed

text \<open>
  C26. When the script runs to completion, the figure it shows is the one that its
  plotting calls reach from the blank figure: it is well-formed, its first four curves
  are the four decibel curves over the frequency grid, each of 2048 points, in the order
  Hann, Kaiser, equiripple, frequency sampling, followed by the four requirement lines;
  the legend lists the four designs with the Hann length 47 and the Kaiser length, and
  the one labelled requirement line.
\<close>

theorem script_figure:
  assumes "script ex syn c = Inr out"
  shows "plot_steps (plot_program c (grid out)
        [dB_window out, dB_kaiser out, dB_remez out, dB_firls out] (legend out), blank)
        ([], shown_figure out)
     \<and> wf_figure (shown_figure out) \<and> fig_shown (shown_figure out)
     \<and> map ydata (take 4 (fig_curves (shown_figure out)))
        = [dB_window out, dB_kaiser out, dB_remez out, dB_firls out]
     \<and> list_all (\<lambda>cv. xdata cv = grid out \<and> length (ydata cv) = 2048)
          (take 4 (fig_curves (shown_figure out)))
     \<and> drop 4 (fig_curves (shown_figure out)) = requirement_curves c
     \<and> map shown_length (legend out)
        = [47, int (length (taps_kaiser out)), int (length (taps_kaiser out)),
           int (length (taps_kaiser out))]
     \<and> fig_legend (shown_figure out)
        = Some (map Curve_Label (legend out) @ [Text_Label ''Wymagane Rs''])"
proof -
  note o = script_success_outputs [OF assms] and p = script_success_presentation [OF assms]
  from p(4) have "plot_steps (plot_program c (grid out)
        [dB_window out, dB_kaiser out, dB_remez out, dB_firls out] (legend out), blank)
        ([], shown_figure out)"
    by (simp add: run_iff_steps)
  moreover from o(10,12) have "list_all (\<lambda>ys. length ys = 2048)
      [dB_window out, dB_kaiser out, dB_remez out, dB_firls out]"
    by simp
  moreover have "response_curves (grid out)
      [dB_window out, dB_kaiser out, dB_remez out, dB_firls out] (legend out)
    = map (\<lambda>(ys, l). \<lparr>xdata = grid out, ydata = ys, curve_style = Default_Solid,
        curve_label = Some (Curve_Label l)\<rparr>)
        (zip [dB_window out, dB_kaiser out, dB_remez out, dB_firls out]
          (the_labels c (int (length (taps_kaiser out)))))"
    by (simp add: response_curves_def p(2))
  moreover from p(5) have "wf_figure (the_final c (grid out)
      [dB_window out, dB_kaiser out, dB_remez out, dB_firls out] (legend out))"
    by (simp add: p(3))
  ultimately show ?thesis
    by (simp add: p(3)) (simp add: p(2) the_labels_def)
qed

theorem script_figure_witness:
  "\<exists>out. script parks_mcclellan freq_sampling unit_rate_task = Inr out
     \<and> fig_shown (shown_figure out) \<and> length (fig_curves (shown_figure out)) = 8
     \<and> map shown_length (legend out) = [47, 3, 3, 3]"
proof -
  from script_unit_rate obtain out
    where out: "script parks_mcclellan freq_sampling unit_rate_task = Inr out" ..
  from script_success_outputs(2) [OF out] have "length (taps_kaiser out) = 3"
    by (auto simp: unit_rate_steps dest: arg_cong [where f = length])
  with script_figure [OF out] out script_success_presentation(2,3) [OF out]
  show ?thesis by auto
qed

end
